theory Spec2Isabelle
  imports Complex_Main "HOL-Library.Word"
begin

section \<open>Foursquare token store, API client and authorization flow\<close>

text \<open>
  The development embeds three source files: the token manager (\<^verbatim>\<open>token.ts\<close>: saveToken,
  loadToken, deleteToken, hasToken, isTokenValid), the API client (\<^verbatim>\<open>api.ts\<close>: setToken,
  getUserCheckins, checkAuth) and the authorization flow (\<^verbatim>\<open>auth.ts\<close>: authenticate and its
  callback handler). Asynchronous functions become functions on an explicit world (the token
  file and the process environment); a thrown exception is the left summand of the result.
\<close>

subsection \<open>JavaScript strings\<close>

text \<open>
  A JavaScript string is a sequence of 16-bit code units. File contents are held as the
  string that \<^verbatim>\<open>readFile(path, 'utf-8')\<close> returns.
\<close>

type_synonym jchar = "16 word"

type_synonym jstring = "jchar list"

definition js :: "string \<Rightarrow> jstring" where
  "js s = map of_char s"

text \<open>
  Truthiness of an optional string: \<^verbatim>\<open>undefined\<close>, \<^verbatim>\<open>null\<close> and the empty string are falsy.
  \<open>str_or\<close> and \<open>num_or\<close> are the operator \<^verbatim>\<open>||\<close> at an optional string and at an optional
  number (\<^verbatim>\<open>undefined\<close> and \<^verbatim>\<open>0\<close> are falsy); \<open>value_of\<close> reads a string known to be truthy.
\<close>

definition truthy :: "jstring option \<Rightarrow> bool" where
  "truthy s = (case s of None \<Rightarrow> False | Some t \<Rightarrow> t \<noteq> [])"

definition str_or :: "jstring option \<Rightarrow> jstring \<Rightarrow> jstring" where
  "str_or s d = (case s of None \<Rightarrow> d | Some t \<Rightarrow> if t = [] then d else t)"

definition num_or :: "int option \<Rightarrow> int \<Rightarrow> int" where
  "num_or n d = (case n of None \<Rightarrow> d | Some k \<Rightarrow> if k = 0 then d else k)"

definition value_of :: "jstring option \<Rightarrow> jstring" where
  "value_of s = (case s of None \<Rightarrow> [] | Some t \<Rightarrow> t)"

subsection \<open>JSON values and \<^verbatim>\<open>JSON.parse\<close>\<close>

text \<open>
  \<^verbatim>\<open>JSON.parse\<close> and \<^verbatim>\<open>JSON.stringify\<close> belong to the platform; they are modelled after the
  JSON grammar. Numbers are exact rationals: rounding to a double, infinities and the sign of
  zero are not represented. An object keeps its members in source order; a property read
  takes the last member of a name, as a JavaScript object does.
\<close>

datatype json =
    JNull
  | JBool bool
  | JNum rat
  | JStr jstring
  | JArr "json list"
  | JObj "(jstring \<times> json) list"

text \<open>Whitespace is space, tab, line feed and carriage return.\<close>

definition is_ws :: "jchar \<Rightarrow> bool" where
  "is_ws c = (c = 0x20 \<or> c = 0x09 \<or> c = 0x0A \<or> c = 0x0D)"

definition skip_ws :: "jstring \<Rightarrow> jstring" where
  "skip_ws s = dropWhile is_ws s"

definition is_digit :: "jchar \<Rightarrow> bool" where
  "is_digit c = (0x30 \<le> c \<and> c \<le> 0x39)"

definition hex_val :: "jchar \<Rightarrow> nat option" where
  "hex_val c =
     (if 0x30 \<le> c \<and> c \<le> 0x39 then Some (unat c - 48)
      else if 0x41 \<le> c \<and> c \<le> 0x46 then Some (unat c - 55)
      else if 0x61 \<le> c \<and> c \<le> 0x66 then Some (unat c - 87)
      else None)"

text \<open>
  The character after a backslash: quotation mark, backslash, slash, and the letters
  b, f, n, r, t.
\<close>

definition unescape :: "jchar \<Rightarrow> jchar option" where
  "unescape e =
     (if e = 0x22 then Some 0x22
      else if e = 0x5C then Some 0x5C
      else if e = 0x2F then Some 0x2F
      else if e = 0x62 then Some 0x08
      else if e = 0x66 then Some 0x0C
      else if e = 0x6E then Some 0x0A
      else if e = 0x72 then Some 0x0D
      else if e = 0x74 then Some 0x09
      else None)"

definition unicode_escape :: "jchar \<Rightarrow> jchar \<Rightarrow> jchar \<Rightarrow> jchar \<Rightarrow> jchar option" where
  "unicode_escape h1 h2 h3 h4 =
     (case (hex_val h1, hex_val h2, hex_val h3, hex_val h4) of
        (Some a, Some b, Some c, Some d) \<Rightarrow> Some (of_nat (a * 4096 + b * 256 + c * 16 + d))
      | _ \<Rightarrow> None)"

text \<open>
  \<open>parse_chars\<close> reads a string body after its opening quotation mark (0x22) and returns the
  decoded string with the input left after the closing mark. A backslash (0x5C) starts an
  escape, the letter u (0x75) a four-digit one; a raw control character ends the parse.
\<close>

fun parse_chars :: "jstring \<Rightarrow> (jstring \<times> jstring) option" where
  "parse_chars [] = None"
| "parse_chars (c # cs) =
     (if c = 0x22 then Some ([], cs)
      else if c = 0x5C then
        (case cs of
           [] \<Rightarrow> None
         | e # cs1 \<Rightarrow>
             if e = 0x75 then
               (case cs1 of
                  h1 # h2 # h3 # h4 # cs2 \<Rightarrow>
                    (case unicode_escape h1 h2 h3 h4 of
                       None \<Rightarrow> None
                     | Some x \<Rightarrow> map_option (apfst (Cons x)) (parse_chars cs2))
                | _ \<Rightarrow> None)
             else
               (case unescape e of
                  None \<Rightarrow> None
                | Some x \<Rightarrow> map_option (apfst (Cons x)) (parse_chars cs1)))
      else if c < 0x20 then None
      else map_option (apfst (Cons c)) (parse_chars cs))"

text \<open>
  Numbers: an optional minus sign, an integer part without a leading zero, an optional
  fraction (after 0x2E) and an optional exponent (after e or E, with an optional sign).
\<close>

definition digits_val :: "jstring \<Rightarrow> nat" where
  "digits_val ds = foldl (\<lambda>n c. 10 * n + (unat c - 48)) 0 ds"

definition parse_int_part :: "jstring \<Rightarrow> (nat \<times> jstring) option" where
  "parse_int_part s =
     (let ds = takeWhile is_digit s in
      if ds = [] \<or> (hd ds = 0x30 \<and> tl ds \<noteq> []) then None
      else Some (digits_val ds, dropWhile is_digit s))"

definition parse_frac :: "jstring \<Rightarrow> (rat \<times> jstring) option" where
  "parse_frac s =
     (case s of
        [] \<Rightarrow> Some (0, s)
      | c # r \<Rightarrow>
          if c = 0x2E then
            (let ds = takeWhile is_digit r in
             if ds = [] then None
             else Some (of_nat (digits_val ds) / 10 ^ length ds, dropWhile is_digit r))
          else Some (0, s))"

definition parse_exp_digits :: "bool \<Rightarrow> jstring \<Rightarrow> (int \<times> jstring) option" where
  "parse_exp_digits neg s =
     (let ds = takeWhile is_digit s in
      if ds = [] then None
      else Some ((if neg then - int (digits_val ds) else int (digits_val ds)), dropWhile is_digit s))"

definition parse_exp :: "jstring \<Rightarrow> (int \<times> jstring) option" where
  "parse_exp s =
     (case s of
        [] \<Rightarrow> Some (0, s)
      | c # r \<Rightarrow>
          if c = 0x65 \<or> c = 0x45 then
            (case r of
               [] \<Rightarrow> None
             | x # r1 \<Rightarrow>
                 if x = 0x2D then parse_exp_digits True r1
                 else if x = 0x2B then parse_exp_digits False r1
                 else parse_exp_digits False r)
          else Some (0, s))"

definition parse_unsigned :: "jstring \<Rightarrow> (rat \<times> jstring) option" where
  "parse_unsigned s =
     (case parse_int_part s of
        None \<Rightarrow> None
      | Some (ip, s1) \<Rightarrow>
          (case parse_frac s1 of
             None \<Rightarrow> None
           | Some (fr, s2) \<Rightarrow>
               (case parse_exp s2 of
                  None \<Rightarrow> None
                | Some (ex, s3) \<Rightarrow> Some ((of_nat ip + fr) * 10 powi ex, s3))))"

definition parse_number :: "jstring \<Rightarrow> (rat \<times> jstring) option" where
  "parse_number s =
     (case s of
        [] \<Rightarrow> None
      | c # r \<Rightarrow>
          if c = 0x2D then map_option (apfst uminus) (parse_unsigned r)
          else parse_unsigned s)"

definition parse_literal :: "string \<Rightarrow> json \<Rightarrow> jstring \<Rightarrow> (json \<times> jstring) option" where
  "parse_literal w v s =
     (if take (length w) s = js w then Some (v, drop (length w) s) else None)"

text \<open>
  The value parser is a recursive descent over the input with a step budget: every call
  of one of the three functions spends one unit. A value opens with a brace (0x7B, object),
  a bracket (0x5B, array), a quotation mark (string), or the first letter of
  \<^verbatim>\<open>true\<close>, \<^verbatim>\<open>false\<close>, \<^verbatim>\<open>null\<close>; anything else must be a number. Members are separated
  by commas (0x2C), a name from its value by a colon (0x3A).
\<close>

fun parse_value :: "nat \<Rightarrow> jstring \<Rightarrow> (json \<times> jstring) option"
and parse_elems :: "nat \<Rightarrow> jstring \<Rightarrow> (json list \<times> jstring) option"
and parse_members :: "nat \<Rightarrow> jstring \<Rightarrow> ((jstring \<times> json) list \<times> jstring) option" where
  "parse_value 0 s = None"
| "parse_value (Suc f) s =
     (case s of
        [] \<Rightarrow> None
      | c # r \<Rightarrow>
          if c = 0x7B then
            (case skip_ws r of
               [] \<Rightarrow> None
             | x # r1 \<Rightarrow>
                 if x = 0x7D then Some (JObj [], r1)
                 else map_option (apfst JObj) (parse_members f (x # r1)))
          else if c = 0x5B then
            (case skip_ws r of
               [] \<Rightarrow> None
             | x # r1 \<Rightarrow>
                 if x = 0x5D then Some (JArr [], r1)
                 else map_option (apfst JArr) (parse_elems f (x # r1)))
          else if c = 0x22 then map_option (apfst JStr) (parse_chars r)
          else if c = 0x74 then parse_literal ''true'' (JBool True) s
          else if c = 0x66 then parse_literal ''false'' (JBool False) s
          else if c = 0x6E then parse_literal ''null'' JNull s
          else map_option (apfst JNum) (parse_number s))"
| "parse_elems 0 s = None"
| "parse_elems (Suc f) s =
     (case parse_value f s of
        None \<Rightarrow> None
      | Some (v, r) \<Rightarrow>
          (case skip_ws r of
             [] \<Rightarrow> None
           | c # r1 \<Rightarrow>
               if c = 0x2C then map_option (apfst (Cons v)) (parse_elems f (skip_ws r1))
               else if c = 0x5D then Some ([v], r1)
               else None))"
| "parse_members 0 s = None"
| "parse_members (Suc f) s =
     (case s of
        [] \<Rightarrow> None
      | q # r \<Rightarrow>
          if q \<noteq> 0x22 then None
          else
            (case parse_chars r of
               None \<Rightarrow> None
             | Some (k, r1) \<Rightarrow>
                 (case skip_ws r1 of
                    [] \<Rightarrow> None
                  | c # r2 \<Rightarrow>
                      if c \<noteq> 0x3A then None
                      else
                        (case parse_value f (skip_ws r2) of
                           None \<Rightarrow> None
                         | Some (v, r3) \<Rightarrow>
                             (case skip_ws r3 of
                                [] \<Rightarrow> None
                              | d # r4 \<Rightarrow>
                                  if d = 0x2C then
                                    map_option (apfst (Cons (k, v))) (parse_members f (skip_ws r4))
                                  else if d = 0x7D then Some ([(k, v)], r4)
                                  else None)))))"

text \<open>
  \<open>JSON_parse s\<close> is \<open>None\<close> where \<^verbatim>\<open>JSON.parse\<close> throws a SyntaxError. The budget of
  twice the length of the text is never the reason for a failure (lemma
  \<open>JSON_parse_any_budget\<close> below).
\<close>

definition JSON_parse :: "jstring \<Rightarrow> json option" where
  "JSON_parse s =
     (case parse_value (2 * length s + 2) (skip_ws s) of
        None \<Rightarrow> None
      | Some (v, r) \<Rightarrow> if skip_ws r = [] then Some v else None)"

subsection \<open>\<^verbatim>\<open>JSON.stringify\<close> at the type of the token record\<close>

text \<open>
  Integers print in decimal, as JavaScript prints an integral number of magnitude below
  \<open>10\<^sup>2\<^sup>1\<close>.
\<close>

definition dec_digit :: "nat \<Rightarrow> jchar" where
  "dec_digit d = of_nat (48 + d)"

function show_nat :: "nat \<Rightarrow> jstring" where
  "show_nat n = (if n < 10 then [dec_digit n] else show_nat (n div 10) @ [dec_digit (n mod 10)])"
  by pat_completeness auto
termination
  by (relation "measure id") auto

declare show_nat.simps [simp del]

definition show_int :: "int \<Rightarrow> jstring" where
  "show_int i = (if i < 0 then 0x2D # show_nat (nat (- i)) else show_nat (nat i))"

text \<open>
  String quoting: the two-character escapes, a lower-case \<^verbatim>\<open>\uXXXX\<close> escape for the other
  control characters and for a surrogate that is not part of a pair, every other code unit
  as it is. A high surrogate followed by a low one is a pair and is copied.
\<close>

definition hex_digit :: "nat \<Rightarrow> jchar" where
  "hex_digit d = (if d < 10 then of_nat (48 + d) else of_nat (87 + d))"

definition hex4 :: "jchar \<Rightarrow> jstring" where
  "hex4 c =
     [hex_digit (unat c div 4096), hex_digit (unat c div 256 mod 16),
      hex_digit (unat c div 16 mod 16), hex_digit (unat c mod 16)]"

definition is_hi_surrogate :: "jchar \<Rightarrow> bool" where
  "is_hi_surrogate c = (0xD800 \<le> c \<and> c \<le> 0xDBFF)"

definition is_lo_surrogate :: "jchar \<Rightarrow> bool" where
  "is_lo_surrogate c = (0xDC00 \<le> c \<and> c \<le> 0xDFFF)"

definition escape1 :: "jchar \<Rightarrow> jstring" where
  "escape1 c =
     (if c = 0x08 then [0x5C, 0x62]
      else if c = 0x09 then [0x5C, 0x74]
      else if c = 0x0A then [0x5C, 0x6E]
      else if c = 0x0C then [0x5C, 0x66]
      else if c = 0x0D then [0x5C, 0x72]
      else if c = 0x22 then [0x5C, 0x22]
      else if c = 0x5C then [0x5C, 0x5C]
      else if c < 0x20 \<or> is_hi_surrogate c \<or> is_lo_surrogate c then [0x5C, 0x75] @ hex4 c
      else [c])"

fun escape_chars :: "jstring \<Rightarrow> jstring" where
  "escape_chars [] = []"
| "escape_chars [c] = escape1 c"
| "escape_chars (c # d # cs) =
     (if is_hi_surrogate c \<and> is_lo_surrogate d then c # d # escape_chars cs
      else escape1 c @ escape_chars (d # cs))"

definition quote :: "jstring \<Rightarrow> jstring" where
  "quote s = [0x22] @ escape_chars s @ [0x22]"

subsection \<open>The token record and its serialized form\<close>

text \<open>
  \<^verbatim>\<open>interface TokenInfo { access_token: string; created_at: number; expires_in?: number }\<close>.
  The two numbers are a time in milliseconds and a lifetime in seconds, held as integers.
\<close>

record TokenInfo =
  access_token :: jstring
  created_at :: int
  expires_in :: "int option"

text \<open>
  \<^verbatim>\<open>JSON.stringify(token, null, 2)\<close>: one member per line under an indent of two spaces, a
  colon and a space after the name, the closing brace on a line of its own. A member whose
  value is \<^verbatim>\<open>undefined\<close> is left out.
\<close>

definition member_line :: "string \<Rightarrow> jstring \<Rightarrow> jstring" where
  "member_line k v = [0x0A, 0x20, 0x20] @ quote (js k) @ [0x3A, 0x20] @ v"

definition JSON_stringify :: "TokenInfo \<Rightarrow> jstring" where
  "JSON_stringify t =
     [0x7B] @ member_line ''access_token'' (quote (access_token t))
     @ [0x2C] @ member_line ''created_at'' (show_int (created_at t))
     @ (case expires_in t of
          None \<Rightarrow> []
        | Some e \<Rightarrow> [0x2C] @ member_line ''expires_in'' (show_int e))
     @ [0x0A, 0x7D]"

text \<open>
  The source casts the parsed value with \<^verbatim>\<open>as TokenInfo\<close>, which checks nothing.
  \<open>as_TokenInfo\<close> is the view of a parsed value at the declared type: an object whose
  \<^verbatim>\<open>access_token\<close> is a string, whose \<^verbatim>\<open>created_at\<close> is an integral number and whose
  \<^verbatim>\<open>expires_in\<close> is absent or an integral number. \<open>to_json\<close> is the value that the
  serialized form of a record denotes.
\<close>

definition get_prop :: "(jstring \<times> json) list \<Rightarrow> string \<Rightarrow> json option" where
  "get_prop kvs k = map_of (rev kvs) (js k)"

definition as_int :: "rat \<Rightarrow> int option" where
  "as_int q = (if of_int \<lfloor>q\<rfloor> = q then Some \<lfloor>q\<rfloor> else None)"

definition as_TokenInfo :: "json \<Rightarrow> TokenInfo option" where
  "as_TokenInfo v =
     (case v of
        JObj kvs \<Rightarrow>
          (case (get_prop kvs ''access_token'', get_prop kvs ''created_at'') of
             (Some (JStr a), Some (JNum c)) \<Rightarrow>
               (case as_int c of
                  None \<Rightarrow> None
                | Some ci \<Rightarrow>
                    (case get_prop kvs ''expires_in'' of
                       None \<Rightarrow> Some \<lparr>access_token = a, created_at = ci, expires_in = None\<rparr>
                     | Some (JNum e) \<Rightarrow>
                         (case as_int e of
                            None \<Rightarrow> None
                          | Some ei \<Rightarrow> Some \<lparr>access_token = a, created_at = ci, expires_in = Some ei\<rparr>)
                     | Some _ \<Rightarrow> None))
           | _ \<Rightarrow> None)
      | _ \<Rightarrow> None)"

definition to_json :: "TokenInfo \<Rightarrow> json" where
  "to_json t =
     JObj ([(js ''access_token'', JStr (access_token t)), (js ''created_at'', JNum (of_int (created_at t)))]
           @ (case expires_in t of None \<Rightarrow> [] | Some e \<Rightarrow> [(js ''expires_in'', JNum (of_int e))]))"

text \<open>
  What the callers of \<open>loadToken\<close> do with the loaded value: the test \<^verbatim>\<open>!v\<close> (\<^verbatim>\<open>null\<close>,
  \<^verbatim>\<open>false\<close>, \<^verbatim>\<open>0\<close> and the empty string are falsy, every array and object is truthy), the
  read of a property (only an object has one of the three names; \<open>None\<close> is \<^verbatim>\<open>undefined\<close>),
  and the truthiness of what was read.
\<close>

definition falsy :: "json \<Rightarrow> bool" where
  "falsy v =
     (case v of
        JNull \<Rightarrow> True
      | JBool b \<Rightarrow> \<not> b
      | JNum q \<Rightarrow> q = 0
      | JStr s \<Rightarrow> s = []
      | JArr vs \<Rightarrow> False
      | JObj kvs \<Rightarrow> False)"

definition read_prop :: "json \<Rightarrow> string \<Rightarrow> json option" where
  "read_prop v k = (case v of JObj kvs \<Rightarrow> get_prop kvs k | _ \<Rightarrow> None)"

definition truthy_val :: "json option \<Rightarrow> bool" where
  "truthy_val x = (case x of None \<Rightarrow> False | Some v \<Rightarrow> \<not> falsy v)"

text \<open>
  A valid record has its numbers among the integers that a JavaScript number holds exactly
  (\<^verbatim>\<open>Number.isSafeInteger\<close>); \<open>safe_numbers\<close> says the same of every number in a parsed
  value. On such values the exact numbers of the model are the numbers of the platform.
\<close>

definition safe_integer :: "int \<Rightarrow> bool" where
  "safe_integer n = (- (2 ^ 53 - 1) \<le> n \<and> n \<le> 2 ^ 53 - 1)"

definition valid_TokenInfo :: "TokenInfo \<Rightarrow> bool" where
  "valid_TokenInfo t =
     (safe_integer (created_at t) \<and> (case expires_in t of None \<Rightarrow> True | Some e \<Rightarrow> safe_integer e))"

fun safe_numbers :: "json \<Rightarrow> bool" where
  "safe_numbers JNull = True"
| "safe_numbers (JBool b) = True"
| "safe_numbers (JNum q) = (case as_int q of None \<Rightarrow> False | Some n \<Rightarrow> safe_integer n)"
| "safe_numbers (JStr s) = True"
| "safe_numbers (JArr vs) = (\<forall>v \<in> set vs. safe_numbers v)"
| "safe_numbers (JObj kvs) = (\<forall>kv \<in> set kvs. safe_numbers (snd kv))"

text \<open>The character that may follow a number in a JSON text: not a digit, a point or an exponent mark.\<close>

definition number_end :: "jstring \<Rightarrow> bool" where
  "number_end s = (case s of [] \<Rightarrow> True | c # _ \<Rightarrow> \<not> is_digit c \<and> c \<noteq> 0x2E \<and> c \<noteq> 0x65 \<and> c \<noteq> 0x45)"

subsection \<open>Errors, the token file and the process environment\<close>

text \<open>
  \<open>errno\<close> is the \<^verbatim>\<open>code\<close> property of a rejected file-system or socket call. The
  constructors of \<open>error\<close> stand for the exceptions of the three source files:
  \<^item> \<open>FsError\<close>: a rejected \<^verbatim>\<open>fs\<close> call; \<open>SyntaxError\<close>: thrown by \<^verbatim>\<open>JSON.parse\<close>;
  \<^item> \<open>CastViolation\<close>: not an exception of the source, but the mark of a run that leaves
    the declared types: a caller of \<open>loadToken\<close> reads from the loaded value an
    \<^verbatim>\<open>access_token\<close> that is not a string, or computes with an expiry field that is not a
    number. What JavaScript makes of such a value through its conversions is not followed;
  \<^item> \<open>TokenNotFound\<close>: the error of \<^verbatim>\<open>setToken\<close> ("token not found, authenticate first");
  \<^item> \<open>FetchFailed\<close>: \<^verbatim>\<open>fetch\<close> rejected; \<open>BodyNotJson\<close>: \<^verbatim>\<open>response.json()\<close> rejected;
    \<open>ApiHttpError\<close> and \<open>ApiMetaError\<close>: the two \<^verbatim>\<open>API error\<close> messages of getUserCheckins;
  \<^item> \<open>MissingCredentials\<close>, \<open>AuthError\<close> (the provider's error parameter), \<open>CodeNotFound\<close>,
    \<open>TokenFetchError\<close>, \<open>NoAccessToken\<close>, \<open>PortInUse\<close>, \<open>AuthTimeout\<close>: the errors of
    \<^verbatim>\<open>authenticate\<close>.
\<close>

datatype errno = ENOENT | EACCES | EISDIR | EIO | EADDRINUSE

datatype error =
    FsError errno
  | SyntaxError
  | CastViolation
  | TokenNotFound
  | FetchFailed
  | BodyNotJson
  | ApiHttpError nat jstring
  | ApiMetaError "jstring option" "jstring option"
  | MissingCredentials
  | AuthError jstring
  | CodeNotFound
  | TokenFetchError jstring
  | NoAccessToken
  | PortInUse
  | AuthTimeout

text \<open>
  The path of the token file is resolved once by \<^verbatim>\<open>initialize\<close> and cached; the model
  starts from the resolved path, with the configuration directory in place. At that path
  there is no entry, a regular file with its content and permission bits, or an entry on
  which every call fails with the given code.
\<close>

datatype node = NoEntry | Regular jstring nat | Unusable errno

record world =
  token_file :: node
  env_access_token :: "jstring option"
  env_client_id :: "jstring option"
  env_client_secret :: "jstring option"

fun readFile :: "node \<Rightarrow> error + jstring" where
  "readFile NoEntry = Inl (FsError ENOENT)"
| "readFile (Regular content m) = Inr content"
| "readFile (Unusable e) = Inl (FsError e)"

text \<open>\<^verbatim>\<open>writeFile\<close> applies the mode only when it creates the file.\<close>

fun writeFile :: "node \<Rightarrow> jstring \<Rightarrow> nat \<Rightarrow> error + node" where
  "writeFile NoEntry content m = Inr (Regular content m)"
| "writeFile (Regular old m0) content m = Inr (Regular content m0)"
| "writeFile (Unusable e) content m = Inl (FsError e)"

text \<open>
  \<^verbatim>\<open>writeFile\<close> with its default flag opens the path, which creates the file or cuts it to
  length zero, and then writes the data, in one piece or in several. \<open>writeFile_states\<close>
  lists what is at the path from the opening on, one state per length written; the first
  state is the empty file, the last one the file that \<open>writeFile\<close> returns.
\<close>

fun writeFile_states :: "node \<Rightarrow> jstring \<Rightarrow> nat \<Rightarrow> node list" where
  "writeFile_states NoEntry content m = map (\<lambda>k. Regular (take k content) m) [0..<Suc (length content)]"
| "writeFile_states (Regular old m0) content m = map (\<lambda>k. Regular (take k content) m0) [0..<Suc (length content)]"
| "writeFile_states (Unusable e) content m = []"

fun unlink :: "node \<Rightarrow> error + node" where
  "unlink NoEntry = Inl (FsError ENOENT)"
| "unlink (Regular content m) = Inr NoEntry"
| "unlink (Unusable e) = Inl (FsError e)"

subsection \<open>The token manager\<close>

abbreviation (input) mode_0600 :: nat where
  "mode_0600 \<equiv> 384"

definition saveToken :: "world \<Rightarrow> TokenInfo \<Rightarrow> error + world" where
  "saveToken w token =
     (case writeFile (token_file w) (JSON_stringify token) mode_0600 of
        Inl e \<Rightarrow> Inl e
      | Inr n \<Rightarrow> Inr (w\<lparr>token_file := n\<rparr>))"

text \<open>The worlds that another reader can find while \<open>saveToken\<close> is writing.\<close>

definition saveToken_states :: "world \<Rightarrow> TokenInfo \<Rightarrow> world list" where
  "saveToken_states w token =
     map (\<lambda>n. w\<lparr>token_file := n\<rparr>) (writeFile_states (token_file w) (JSON_stringify token) mode_0600)"

text \<open>
  \<open>loadToken\<close> returns what \<^verbatim>\<open>JSON.parse\<close> returns, with no check: the cast
  \<^verbatim>\<open>as TokenInfo\<close> does nothing at run time. \<^verbatim>\<open>null\<close> is \<open>JNull\<close>. The handler of the
  source looks at the code of whatever was thrown: \<^verbatim>\<open>ENOENT\<close> gives \<^verbatim>\<open>null\<close>, everything
  else, the SyntaxError included, is thrown again. A number of the parsed value is the
  exact value of its numeral, where \<^verbatim>\<open>JSON.parse\<close> gives the nearest double: the two
  are the same on the values that satisfy \<open>safe_numbers\<close>.
\<close>

definition loadToken :: "world \<Rightarrow> error + json" where
  "loadToken w =
     (case readFile (token_file w) of
        Inl e \<Rightarrow> (if e = FsError ENOENT then Inr JNull else Inl e)
      | Inr data \<Rightarrow>
          (case JSON_parse data of
             None \<Rightarrow> Inl SyntaxError
           | Some v \<Rightarrow> Inr v))"

definition deleteToken :: "world \<Rightarrow> error + world" where
  "deleteToken w =
     (case unlink (token_file w) of
        Inl e \<Rightarrow> (if e \<noteq> FsError ENOENT then Inl e else Inr w)
      | Inr n \<Rightarrow> Inr (w\<lparr>token_file := n\<rparr>))"


text \<open>\<open>now\<close> is the value of \<^verbatim>\<open>Date.now()\<close>.\<close>

definition isTokenValid :: "world \<Rightarrow> int \<Rightarrow> error + bool" where
  "isTokenValid w now =
     (case loadToken w of
        Inl e \<Rightarrow> Inl e
      | Inr token \<Rightarrow>
          if falsy token then Inr False
          else if truthy_val (read_prop token ''expires_in'') \<and> truthy_val (read_prop token ''created_at'')
          then
            (case (read_prop token ''created_at'', read_prop token ''expires_in'') of
               (Some (JNum c), Some (JNum e)) \<Rightarrow>
                 (let expiresAt = c + e * 1000
                  in if of_int now > expiresAt then Inr False else Inr True)
             | _ \<Rightarrow> Inl CastViolation)
          else Inr True)"

subsection \<open>The API client\<close>

text \<open>
  The instance state of \<^verbatim>\<open>FoursquareAPI\<close> is its one field. A request is the Authorization
  header and the query parameters of the check-in endpoint; the network is a function from
  the request to what \<^verbatim>\<open>fetch\<close> does with it. Every operation returns its result, the
  instance state after it, and the effects it performed, in order.
\<close>

record api =
  accessToken :: "jstring option"

datatype sort_order = newestfirst | oldestfirst

record options =
  limit :: "int option"
  afterTimestamp :: "int option"
  beforeTimestamp :: "int option"
  sort_opt :: "sort_order option"

record request =
  authorization :: jstring
  query :: "(string \<times> jstring) list"

text \<open>
  The response body as \<^verbatim>\<open>response.json()\<close> delivers it at the declared type: the code
  and the error fields of \<^verbatim>\<open>meta\<close>, and the check-in items.
\<close>

record api_body =
  meta_code :: int
  errorType :: "jstring option"
  errorDetail :: "jstring option"
  items :: "json list"

record response =
  ok :: bool
  status :: nat
  body_text :: jstring
  body :: "api_body option"

datatype fetch_result = NetworkFailure | Response response

datatype effect = StoreRead | HttpGet request

text \<open>The header is a template string, in which \<^verbatim>\<open>null\<close> prints as the word null.\<close>

definition bearer :: "api \<Rightarrow> jstring" where
  "bearer a = js ''Bearer '' @ (case accessToken a of None \<Rightarrow> js ''null'' | Some t \<Rightarrow> t)"

definition setToken :: "jstring option \<Rightarrow> api \<Rightarrow> world \<Rightarrow> (error + unit) \<times> api \<times> effect list" where
  "setToken token a w =
     (if truthy token then (Inr (), a\<lparr>accessToken := token\<rparr>, [])
      else
        (case loadToken w of
           Inl e \<Rightarrow> (Inl e, a, [StoreRead])
         | Inr tokenInfo \<Rightarrow>
             if falsy tokenInfo then (Inl TokenNotFound, a, [StoreRead])
             else
               (case read_prop tokenInfo ''access_token'' of
                  Some (JStr s) \<Rightarrow> (Inr (), a\<lparr>accessToken := Some s\<rparr>, [StoreRead])
                | _ \<Rightarrow> (Inl CastViolation, a, [StoreRead]))))"

definition sort_name :: "sort_order option \<Rightarrow> jstring" where
  "sort_name s =
     (case s of
        None \<Rightarrow> js ''newestfirst''
      | Some newestfirst \<Rightarrow> js ''newestfirst''
      | Some oldestfirst \<Rightarrow> js ''oldestfirst'')"

definition optional_param :: "string \<Rightarrow> int option \<Rightarrow> (string \<times> jstring) list" where
  "optional_param name n =
     (case n of None \<Rightarrow> [] | Some k \<Rightarrow> if k = 0 then [] else [(name, show_int k)])"

definition checkins_request :: "api \<Rightarrow> options \<Rightarrow> request" where
  "checkins_request a opts =
     \<lparr>authorization = bearer a,
      query = [(''v'', js ''20250824''), (''limit'', show_int (num_or (limit opts) 50)),
               (''sort'', sort_name (sort_opt opts))]
              @ optional_param ''afterTimestamp'' (afterTimestamp opts)
              @ optional_param ''beforeTimestamp'' (beforeTimestamp opts)\<rparr>"

definition checkins_result :: "fetch_result \<Rightarrow> error + json list" where
  "checkins_result r =
     (case r of
        NetworkFailure \<Rightarrow> Inl FetchFailed
      | Response resp \<Rightarrow>
          if \<not> ok resp then Inl (ApiHttpError (status resp) (body_text resp))
          else
            (case body resp of
               None \<Rightarrow> Inl BodyNotJson
             | Some data \<Rightarrow>
                 if meta_code data \<noteq> 200 then Inl (ApiMetaError (errorType data) (errorDetail data))
                 else Inr (items data)))"

definition getUserCheckins ::
  "options \<Rightarrow> api \<Rightarrow> world \<Rightarrow> (request \<Rightarrow> fetch_result) \<Rightarrow> (error + json list) \<times> api \<times> effect list" where
  "getUserCheckins opts a w net =
     (case (if \<not> truthy (accessToken a) then setToken None a w else (Inr (), a, [])) of
        (Inl e, a1, effs) \<Rightarrow> (Inl e, a1, effs)
      | (Inr u, a1, effs) \<Rightarrow>
          (checkins_result (net (checkins_request a1 opts)), a1,
           effs @ [HttpGet (checkins_request a1 opts)]))"

definition probe_request :: "api \<Rightarrow> request" where
  "probe_request a = \<lparr>authorization = bearer a, query = [(''v'', js ''20250824''), (''limit'', js ''1'')]\<rparr>"

text \<open>The part of \<^verbatim>\<open>checkAuth\<close> inside its \<^verbatim>\<open>try\<close> block.\<close>

definition probe :: "api \<Rightarrow> (request \<Rightarrow> fetch_result) \<Rightarrow> effect list \<Rightarrow> (error + bool) \<times> api \<times> effect list" where
  "probe a net effs =
     ((case net (probe_request a) of
         NetworkFailure \<Rightarrow> Inr False
       | Response resp \<Rightarrow> Inr (ok resp)),
      a, effs @ [HttpGet (probe_request a)])"

definition checkAuth :: "api \<Rightarrow> world \<Rightarrow> (request \<Rightarrow> fetch_result) \<Rightarrow> (error + bool) \<times> api \<times> effect list" where
  "checkAuth a w net =
     (if \<not> truthy (accessToken a) then
        (case loadToken w of
           Inl e \<Rightarrow> (Inl e, a, [StoreRead])
         | Inr tokenInfo \<Rightarrow>
             if falsy tokenInfo then (Inr False, a, [StoreRead])
             else
               (case read_prop tokenInfo ''access_token'' of
                  Some (JStr s) \<Rightarrow> probe (a\<lparr>accessToken := Some s\<rparr>) net [StoreRead]
                | _ \<Rightarrow> (Inl CastViolation, a, [StoreRead])))
      else probe a net [])"

subsection \<open>The authorization flow\<close>

text \<open>
  \<^verbatim>\<open>authenticate\<close> returns a promise and leaves a listener behind; what happens next is
  driven by events. The state of one flow is the world, whether the listener accepts
  requests, the settled state of the promise (a promise keeps its first settlement), the
  callback handlers that are suspended at the token-exchange request (each with the code it
  sent), the number of pending one-second close timers, the number of callback handler runs
  that have returned, and the pages sent to the browser.
\<close>

datatype outcome = Resolved TokenInfo | Rejected error

datatype page = AuthErrorPage jstring | NoCodePage | ErrorPage error | SuccessPage | WaitingPage

record flow =
  disk :: world
  listening :: bool
  promise :: "outcome option"
  suspended :: "jstring list"
  close_timers :: nat
  completed :: nat
  pages :: "page list"







text \<open>
  The start of \<^verbatim>\<open>authenticate\<close>: the credentials come from the arguments or the
  environment, and the flow begins with the listener bound, or with the promise rejected
  when binding the port raised an error event (\<open>bind\<close> is its code).
\<close>

definition authenticate :: "jstring option \<Rightarrow> jstring option \<Rightarrow> world \<Rightarrow> errno option \<Rightarrow> error + flow" where
  "authenticate clientId clientSecret w bind =
     (let finalClientId = str_or clientId (str_or (env_client_id w) []);
          finalClientSecret = str_or clientSecret (str_or (env_client_secret w) [])
      in if finalClientId = [] \<or> finalClientSecret = [] then Inl MissingCredentials
         else
           Inr \<lparr>disk = w,
                listening = (bind = None),
                promise = (case bind of
                             None \<Rightarrow> None
                           | Some e \<Rightarrow> Some (Rejected (if e = EADDRINUSE then PortInUse else FsError e))),
                suspended = [], close_timers = 0, completed = 0, pages = []\<rparr>)"








subsection \<open>Concrete worlds for the examples\<close>

definition world0 :: world where
  "world0 = \<lparr>token_file = NoEntry, env_access_token = None,
             env_client_id = Some (js ''id''), env_client_secret = Some (js ''secret'')\<rparr>"

definition flow0 :: flow where
  "flow0 = \<lparr>disk = world0, listening = True, promise = None, suspended = [], close_timers = 0,
            completed = 0, pages = []\<rparr>"

definition net_down :: "request \<Rightarrow> fetch_result" where
  "net_down req = NetworkFailure"

definition token_S :: TokenInfo where
  "token_S = \<lparr>access_token = js ''S'', created_at = 1000, expires_in = None\<rparr>"

definition token_zero :: TokenInfo where
  "token_zero = \<lparr>access_token = js ''S'', created_at = 1000, expires_in = Some 0\<rparr>"


definition stored :: "TokenInfo \<Rightarrow> world" where
  "stored t = world0\<lparr>token_file := Regular (JSON_stringify t) mode_0600\<rparr>"

definition token_T2 :: TokenInfo where
  "token_T2 = \<lparr>access_token = js ''T2'', created_at = 1000, expires_in = None\<rparr>"

definition token_empty :: TokenInfo where
  "token_empty = \<lparr>access_token = [], created_at = 1000, expires_in = None\<rparr>"

definition api0 :: api where
  "api0 = \<lparr>accessToken = None\<rparr>"

definition api_S :: api where
  "api_S = \<lparr>accessToken = Some (js ''S'')\<rparr>"



section \<open>Properties\<close>

subsection \<open>Parsing what the printer writes\<close>

text \<open>Hexadecimal escapes decode to the code unit they were made from.\<close>

lemma hex_digit_cases:
  "d < 16 \<Longrightarrow> d = 0 \<or> d = 1 \<or> d = 2 \<or> d = 3 \<or> d = 4 \<or> d = 5 \<or> d = 6 \<or> d = 7 \<or> d = 8 \<or> d = 9
     \<or> d = 10 \<or> d = 11 \<or> d = 12 \<or> d = 13 \<or> d = 14 \<or> d = (15::nat)"
  by arith

lemma hex_val_hex_digit:
  assumes "d < 16"
  shows "hex_val (hex_digit d) = Some d"
  using hex_digit_cases [OF assms] by (elim disjE; simp add: hex_val_def hex_digit_def)

lemma combine_linear:
  fixes n :: nat
  assumes "n = q1 * 16 + r1" "q1 = q2 * 16 + r2" "q2 = q3 * 16 + r3"
  shows "q3 * 4096 + r3 * 256 + r2 * 16 + r1 = n"
  using assms by simp

lemma hex_split: "n div 4096 * 4096 + n div 256 mod 16 * 256 + n div 16 mod 16 * 16 + n mod 16 = (n::nat)"
proof -
  have a: "n = n div 16 * 16 + n mod 16" by simp
  have "n div 256 = n div 16 div 16" by (simp add: div_mult2_eq)
  then have b: "n div 16 = n div 256 * 16 + n div 16 mod 16" by simp
  have "n div 4096 = n div 256 div 16" by (simp add: div_mult2_eq)
  then have c: "n div 256 = n div 4096 * 16 + n div 256 mod 16" by simp
  show ?thesis by (rule combine_linear [OF a b c])
qed

lemma unicode_escape_hex4:
  "unicode_escape (hex_digit (unat c div 4096)) (hex_digit (unat c div 256 mod 16))
      (hex_digit (unat c div 16 mod 16)) (hex_digit (unat c mod 16)) = Some (c :: jchar)"
proof -
  have lt: "unat c < 65536" using unsigned_less [of c] by simp
  then have d1: "unat c div 4096 < 16" by simp
  show ?thesis
    by (simp add: unicode_escape_def hex_val_hex_digit d1 hex_split)
qed

lemma parse_chars_escape1:
  "parse_chars (escape1 c @ t) = map_option (apfst (Cons c)) (parse_chars t)"
  by (simp add: escape1_def hex4_def unescape_def unicode_escape_hex4 is_hi_surrogate_def is_lo_surrogate_def)

lemma parse_chars_escape_chars:
  "parse_chars (escape_chars s @ 0x22 # rest) = Some (s, rest)"
proof (induction s rule: escape_chars.induct)
  case 1
  show ?case by simp
next
  case (2 c)
  show ?case by (simp add: parse_chars_escape1)
next
  case (3 c d cs)
  show ?case
  proof (cases "is_hi_surrogate c \<and> is_lo_surrogate d")
    case True
    then have "c \<noteq> 0x22" "c \<noteq> 0x5C" "\<not> c < 0x20" "d \<noteq> 0x22" "d \<noteq> 0x5C" "\<not> d < 0x20"
      by (auto simp add: is_hi_surrogate_def is_lo_surrogate_def word_le_nat_alt word_less_nat_alt)
    with True 3 show ?thesis by simp
  next
    case False
    then have e: "escape_chars (c # d # cs) = escape1 c @ escape_chars (d # cs)" by auto
    from False 3 have ih: "parse_chars (escape_chars (d # cs) @ 0x22 # rest) = Some (d # cs, rest)"
      by blast
    show ?thesis
      by (simp only: e append_assoc parse_chars_escape1 ih option.map apfst_conv)
  qed
qed

lemma dec_digit_cases:
  "d < 10 \<Longrightarrow> d = 0 \<or> d = 1 \<or> d = 2 \<or> d = 3 \<or> d = 4 \<or> d = 5 \<or> d = 6 \<or> d = 7 \<or> d = 8 \<or> d = (9::nat)"
  by arith

lemma digit_char:
  assumes "d < 10"
  shows "is_digit (dec_digit d) \<and> unat (dec_digit d) = 48 + d"
  using dec_digit_cases [OF assms] by (elim disjE; simp add: is_digit_def dec_digit_def)

lemma show_nat_digits: "\<forall>c \<in> set (show_nat n). is_digit c"
proof (induction n rule: show_nat.induct)
  case (1 n)
  show ?case
  proof (cases "n < 10")
    case True
    then show ?thesis by (subst show_nat.simps) (simp add: digit_char)
  next
    case False
    have "n mod 10 < 10" by simp
    with False 1 show ?thesis by (subst show_nat.simps) (simp add: digit_char)
  qed
qed

lemma show_nat_nonempty: "show_nat n \<noteq> []"
  by (subst show_nat.simps) simp

lemma digits_val_snoc: "digits_val (ds @ [d]) = 10 * digits_val ds + (unat d - 48)"
  by (simp add: digits_val_def)

lemma digits_val_show_nat: "digits_val (show_nat n) = n"
proof (induction n rule: show_nat.induct)
  case (1 n)
  show ?case
  proof (cases "n < 10")
    case True
    then show ?thesis by (subst show_nat.simps) (simp add: digits_val_def digit_char)
  next
    case False
    have "n mod 10 < 10" by simp
    with False 1 show ?thesis
      by (subst show_nat.simps) (simp add: digits_val_snoc digit_char)
  qed
qed

lemma show_nat_hd: "hd (show_nat n) = 0x30 \<Longrightarrow> n = 0"
proof (induction n rule: show_nat.induct)
  case (1 n)
  show ?case
  proof (cases "n < 10")
    case True
    with 1(2) have "dec_digit n = 0x30" by (subst (asm) show_nat.simps) simp
    then have "unat (dec_digit n) = unat (0x30 :: jchar)" by simp
    with True show ?thesis by (simp add: digit_char)
  next
    case False
    with 1(2) have "hd (show_nat (n div 10)) = 0x30"
      by (subst (asm) show_nat.simps) (simp add: show_nat_nonempty)
    with False 1(1) have "n div 10 = 0" by simp
    with False show ?thesis by simp
  qed
qed

lemma show_nat_0: "show_nat 0 = [0x30]"
  by (subst show_nat.simps) (simp add: dec_digit_def)

lemma show_nat_leading: "\<not> (hd (show_nat n) = 0x30 \<and> tl (show_nat n) \<noteq> [])"
  using show_nat_hd [of n] by (auto simp add: show_nat_0)

lemma takeWhile_digits:
  "number_end rest \<Longrightarrow> takeWhile is_digit (show_nat n @ rest) = show_nat n"
  using show_nat_digits [of n]
  by (cases rest) (simp_all add: number_end_def takeWhile_append2)

lemma dropWhile_digits:
  "number_end rest \<Longrightarrow> dropWhile is_digit (show_nat n @ rest) = rest"
  using show_nat_digits [of n]
  by (cases rest) (simp_all add: number_end_def dropWhile_append2)

lemma parse_unsigned_show_nat:
  assumes "number_end rest"
  shows "parse_unsigned (show_nat n @ rest) = Some (of_nat n, rest)"
proof -
  have ip: "parse_int_part (show_nat n @ rest) = Some (n, rest)"
    using assms show_nat_leading [of n]
    by (simp add: parse_int_part_def takeWhile_digits dropWhile_digits digits_val_show_nat
        show_nat_nonempty Let_def)
  have fr: "parse_frac rest = Some (0, rest)"
    using assms by (cases rest) (simp_all add: parse_frac_def number_end_def)
  have ex: "parse_exp rest = Some (0, rest)"
    using assms by (cases rest) (simp_all add: parse_exp_def number_end_def)
  show ?thesis by (simp add: parse_unsigned_def ip fr ex)
qed

lemma show_nat_first: "\<exists>c cs. show_nat n = c # cs \<and> is_digit c"
  using show_nat_digits [of n] show_nat_nonempty [of n] by (cases "show_nat n") auto

lemma parse_number_show_int:
  assumes "number_end rest"
  shows "parse_number (show_int i @ rest) = Some (of_int i, rest)"
proof (cases "i < 0")
  case True
  then show ?thesis
    by (simp add: parse_number_def show_int_def parse_unsigned_show_nat [OF assms])
next
  case False
  obtain c cs where c: "show_nat (nat i) = c # cs" "is_digit c"
    using show_nat_first by blast
  then have "c \<noteq> 0x2D" by (auto simp add: is_digit_def)
  with c False have "parse_number (show_int i @ rest) = parse_unsigned (show_nat (nat i) @ rest)"
    by (simp add: parse_number_def show_int_def)
  with False show ?thesis by (simp add: parse_unsigned_show_nat [OF assms])
qed

lemma as_int_of_int: "as_int (of_int i) = Some i"
  by (simp add: as_int_def)

lemma as_TokenInfo_to_json: "as_TokenInfo (to_json t) = Some t"
  by (cases "expires_in t") (simp_all add: as_TokenInfo_def to_json_def get_prop_def js_def as_int_of_int)

lemma parse_value_quote: "parse_value (Suc f) (quote s @ rest) = Some (JStr s, rest)"
  by (simp add: quote_def parse_chars_escape_chars)

lemma show_int_first:
  "\<exists>c cs. show_int i = c # cs \<and> (c = 0x2D \<or> is_digit c)"
  using show_nat_first [of "nat i"] show_nat_first [of "nat (- i)"]
  by (auto simp add: show_int_def)

lemma parse_value_show_int:
  assumes "number_end rest"
  shows "parse_value (Suc f) (show_int i @ rest) = Some (JNum (of_int i), rest)"
proof -
  obtain c cs where c: "show_int i = c # cs" "c = 0x2D \<or> is_digit c"
    using show_int_first by blast
  then have ne: "c \<noteq> 0x7B" "c \<noteq> 0x5B" "c \<noteq> 0x22" "c \<noteq> 0x74" "c \<noteq> 0x66" "c \<noteq> 0x6E"
    by (auto simp add: is_digit_def)
  have "parse_value (Suc f) (c # cs @ rest) = map_option (apfst JNum) (parse_number (c # cs @ rest))"
    using ne by simp
  also have "c # cs @ rest = show_int i @ rest" using c by simp
  finally show ?thesis by (simp add: parse_number_show_int [OF assms])
qed

lemma number_end_simps [simp]: "number_end (0x2C # s)" "number_end (0x0A # s)"
  by (simp_all add: number_end_def is_digit_def)

lemma parse_members_last:
  assumes v: "parse_value f (vtext @ 0x0A # 0x7D # rest) = Some (v, 0x0A # 0x7D # rest)"
    and nw: "\<exists>c cs. vtext = c # cs \<and> \<not> is_ws c"
  shows "parse_members (Suc f) (quote k @ [0x3A, 0x20] @ vtext @ [0x0A, 0x7D] @ rest) = Some ([(k, v)], rest)"
proof -
  obtain c cs where c: "vtext = c # cs" "\<not> is_ws c" using nw by blast
  have s1: "skip_ws (0x3A # 0x20 # vtext @ 0x0A # 0x7D # rest) = 0x3A # 0x20 # vtext @ 0x0A # 0x7D # rest"
    by (simp add: skip_ws_def is_ws_def)
  have s2: "skip_ws (0x20 # vtext @ 0x0A # 0x7D # rest) = vtext @ 0x0A # 0x7D # rest"
    using c by (simp add: skip_ws_def is_ws_def)
  have s3: "skip_ws (0x0A # 0x7D # rest) = 0x7D # rest"
    by (simp add: skip_ws_def is_ws_def)
  have "parse_members (Suc f) (0x22 # (escape_chars k @ 0x22 # 0x3A # 0x20 # vtext @ 0x0A # 0x7D # rest))
      = Some ([(k, v)], rest)"
    by (simp add: parse_chars_escape_chars s1 s2 s3 v del: parse_value.simps parse_chars.simps)
  then show ?thesis by (simp add: quote_def)
qed

lemma parse_members_more:
  assumes v: "parse_value f (vtext @ 0x2C # 0x0A # 0x20 # 0x20 # quote k2 @ tl0) = Some (v, 0x2C # 0x0A # 0x20 # 0x20 # quote k2 @ tl0)"
    and nw: "\<exists>c cs. vtext = c # cs \<and> \<not> is_ws c"
    and ms: "parse_members f (quote k2 @ tl0) = Some (ms, rest)"
  shows "parse_members (Suc f) (quote k @ [0x3A, 0x20] @ vtext @ [0x2C] @ [0x0A, 0x20, 0x20] @ quote k2 @ tl0)
           = Some ((k, v) # ms, rest)"
proof -
  let ?tail = "0x2C # 0x0A # 0x20 # 0x20 # quote k2 @ tl0"
  obtain c cs where c: "vtext = c # cs" "\<not> is_ws c" using nw by blast
  have s1: "skip_ws (0x3A # 0x20 # vtext @ ?tail) = 0x3A # 0x20 # vtext @ ?tail"
    by (simp add: skip_ws_def is_ws_def)
  have s2: "skip_ws (0x20 # vtext @ ?tail) = vtext @ ?tail"
    using c by (simp add: skip_ws_def is_ws_def)
  have s3: "skip_ws ?tail = ?tail"
    by (simp add: skip_ws_def is_ws_def)
  have s4: "skip_ws (0x0A # 0x20 # 0x20 # quote k2 @ tl0) = quote k2 @ tl0"
    by (simp add: skip_ws_def is_ws_def quote_def)
  have "parse_members (Suc f) (0x22 # (escape_chars k @ 0x22 # 0x3A # 0x20 # vtext @ ?tail))
      = Some ((k, v) # ms, rest)"
    by (subst parse_members.simps(2))
       (simp add: parse_chars_escape_chars s1 s2 s3 s4 v ms del: parse_value.simps parse_chars.simps parse_members.simps(2))
  then show ?thesis by (simp add: quote_def)
qed

lemma quote_nonws: "\<exists>c cs. quote s = c # cs \<and> \<not> is_ws c"
  by (simp add: quote_def is_ws_def)

lemma show_int_nonws: "\<exists>c cs. show_int i = c # cs \<and> \<not> is_ws c"
  using show_int_first [of i] by (auto simp add: is_ws_def is_digit_def)

lemma parse_value_object:
  assumes nw: "\<exists>c. skip_ws (0x0A # 0x20 # 0x20 # quote k @ tl0) = c # tl (quote k) @ tl0 \<and> c = 0x22"
    and ms: "parse_members f (quote k @ tl0) = Some (ms, rest)"
  shows "parse_value (Suc f) ([0x7B] @ [0x0A, 0x20, 0x20] @ quote k @ tl0) = Some (JObj ms, rest)"
proof -
  have s: "skip_ws (0x0A # 0x20 # 0x20 # quote k @ tl0) = 0x22 # tl (quote k) @ tl0"
    using nw by auto
  have q: "0x22 # tl (quote k) @ tl0 = quote k @ tl0" by (simp add: quote_def)
  show ?thesis
    by (simp add: s del: parse_members.simps) (simp add: q ms)
qed

lemma skip_ws_quote: "skip_ws (0x0A # 0x20 # 0x20 # quote k @ tl0) = 0x22 # tl (quote k) @ tl0"
  by (simp add: skip_ws_def is_ws_def quote_def)

lemma parse_value_JSON_stringify:
  "parse_value (Suc (Suc (Suc (Suc (Suc f))))) (JSON_stringify t @ rest) = Some (to_json t, rest)"
proof (cases "expires_in t")
  case None
  have m2: "parse_members (Suc (Suc (Suc f)))
              (quote (js ''created_at'') @ [0x3A, 0x20] @ show_int (created_at t) @ [0x0A, 0x7D] @ rest)
            = Some ([(js ''created_at'', JNum (of_int (created_at t)))], rest)"
    by (rule parse_members_last [OF parse_value_show_int show_int_nonws]) simp
  have m1: "parse_members (Suc (Suc (Suc (Suc f))))
              (quote (js ''access_token'') @ [0x3A, 0x20] @ quote (access_token t) @ [0x2C] @ [0x0A, 0x20, 0x20]
                @ quote (js ''created_at'') @ [0x3A, 0x20] @ show_int (created_at t) @ [0x0A, 0x7D] @ rest)
            = Some ([(js ''access_token'', JStr (access_token t)),
                     (js ''created_at'', JNum (of_int (created_at t)))], rest)"
    by (rule parse_members_more [OF parse_value_quote quote_nonws m2])
  have "parse_value (Suc (Suc (Suc (Suc (Suc f)))))
          ([0x7B] @ [0x0A, 0x20, 0x20] @ quote (js ''access_token'') @ [0x3A, 0x20] @ quote (access_token t) @ [0x2C] @ [0x0A, 0x20, 0x20]
                @ quote (js ''created_at'') @ [0x3A, 0x20] @ show_int (created_at t) @ [0x0A, 0x7D] @ rest)
        = Some (JObj [(js ''access_token'', JStr (access_token t)),
                     (js ''created_at'', JNum (of_int (created_at t)))], rest)"
    by (rule parse_value_object [OF _ m1]) (simp add: skip_ws_quote)
  with None show ?thesis
    by (simp add: JSON_stringify_def member_line_def to_json_def del: parse_value.simps)
next
  case (Some e)
  have m3: "parse_members (Suc (Suc f))
              (quote (js ''expires_in'') @ [0x3A, 0x20] @ show_int e @ [0x0A, 0x7D] @ rest)
            = Some ([(js ''expires_in'', JNum (of_int e))], rest)"
    by (rule parse_members_last [OF parse_value_show_int show_int_nonws]) simp
  have m2: "parse_members (Suc (Suc (Suc f)))
              (quote (js ''created_at'') @ [0x3A, 0x20] @ show_int (created_at t) @ [0x2C] @ [0x0A, 0x20, 0x20]
                @ quote (js ''expires_in'') @ [0x3A, 0x20] @ show_int e @ [0x0A, 0x7D] @ rest)
            = Some ([(js ''created_at'', JNum (of_int (created_at t))), (js ''expires_in'', JNum (of_int e))], rest)"
    by (rule parse_members_more [OF parse_value_show_int show_int_nonws m3]) simp
  have m1: "parse_members (Suc (Suc (Suc (Suc f))))
              (quote (js ''access_token'') @ [0x3A, 0x20] @ quote (access_token t) @ [0x2C] @ [0x0A, 0x20, 0x20]
                @ quote (js ''created_at'') @ [0x3A, 0x20] @ show_int (created_at t) @ [0x2C] @ [0x0A, 0x20, 0x20]
                @ quote (js ''expires_in'') @ [0x3A, 0x20] @ show_int e @ [0x0A, 0x7D] @ rest)
            = Some ([(js ''access_token'', JStr (access_token t)),
                     (js ''created_at'', JNum (of_int (created_at t))), (js ''expires_in'', JNum (of_int e))], rest)"
    by (rule parse_members_more [OF parse_value_quote quote_nonws m2])
  have "parse_value (Suc (Suc (Suc (Suc (Suc f)))))
          ([0x7B] @ [0x0A, 0x20, 0x20] @ quote (js ''access_token'') @ [0x3A, 0x20] @ quote (access_token t) @ [0x2C] @ [0x0A, 0x20, 0x20]
                @ quote (js ''created_at'') @ [0x3A, 0x20] @ show_int (created_at t) @ [0x2C] @ [0x0A, 0x20, 0x20]
                @ quote (js ''expires_in'') @ [0x3A, 0x20] @ show_int e @ [0x0A, 0x7D] @ rest)
        = Some (JObj [(js ''access_token'', JStr (access_token t)),
                     (js ''created_at'', JNum (of_int (created_at t))), (js ''expires_in'', JNum (of_int e))], rest)"
    by (rule parse_value_object [OF _ m1]) (simp add: skip_ws_quote)
  with Some show ?thesis
    by (simp add: JSON_stringify_def member_line_def to_json_def del: parse_value.simps)
qed

lemma JSON_stringify_length: "2 \<le> length (JSON_stringify t)"
  by (simp add: JSON_stringify_def)

lemma JSON_parse_stringify: "JSON_parse (JSON_stringify t) = Some (to_json t)"
proof -
  obtain f where f: "2 * length (JSON_stringify t) + 2 = Suc (Suc (Suc (Suc (Suc f))))"
  proof -
    obtain k where "length (JSON_stringify t) = 2 + k"
      using JSON_stringify_length [of t] le_Suc_ex by blast
    then have "2 * length (JSON_stringify t) + 2 = Suc (Suc (Suc (Suc (Suc (Suc (2 * k))))))" by simp
    then show ?thesis using that by blast
  qed
  have h: "skip_ws (JSON_stringify t) = JSON_stringify t"
    by (simp add: JSON_stringify_def skip_ws_def is_ws_def)
  have p: "parse_value (Suc (Suc (Suc (Suc (Suc f))))) (JSON_stringify t) = Some (to_json t, [])"
    using parse_value_JSON_stringify [of f t "[]"] by simp
  have e: "skip_ws [] = []" by (simp add: skip_ws_def)
  show ?thesis
    unfolding JSON_parse_def f h p by (simp add: e)
qed

lemma JSON_parse_empty: "JSON_parse [] = None"
  by (simp add: JSON_parse_def skip_ws_def)


lemma to_json_not_null: "to_json t \<noteq> JNull"
  by (simp add: to_json_def)

subsection \<open>The step budget of the parser\<close>

text \<open>
  A parse that succeeds with some budget succeeds with every larger one, and with twice the
  number of characters it consumes. So \<open>JSON_parse\<close> fails only on a text that no budget
  parses.
\<close>

lemma skip_ws_length: "length (skip_ws s) \<le> length s"
  by (simp add: skip_ws_def length_dropWhile_le)

lemma parse_fuel_mono:
  "(parse_value f s = Some a \<longrightarrow> parse_value (Suc f) s = Some a)
   \<and> (parse_elems f s = Some b \<longrightarrow> parse_elems (Suc f) s = Some b)
   \<and> (parse_members f s = Some c \<longrightarrow> parse_members (Suc f) s = Some c)"
proof (induction f arbitrary: s a b c)
  case 0
  show ?case by simp
next
  case (Suc f)
  have v: "\<And>s a. parse_value f s = Some a \<Longrightarrow> parse_value (Suc f) s = Some a"
    and e: "\<And>s b. parse_elems f s = Some b \<Longrightarrow> parse_elems (Suc f) s = Some b"
    and m: "\<And>s c. parse_members f s = Some c \<Longrightarrow> parse_members (Suc f) s = Some c"
    using Suc.IH by blast+
  have 1: "parse_value (Suc f) s = Some a \<longrightarrow> parse_value (Suc (Suc f)) s = Some a"
    apply (subst parse_value.simps(2))
    apply (subst parse_value.simps(2))
    apply (auto split: list.splits dest: e m simp del: parse_elems.simps parse_members.simps)
    done
  have 2: "parse_elems (Suc f) s = Some b \<longrightarrow> parse_elems (Suc (Suc f)) s = Some b"
  proof (cases "parse_value f s")
    case None
    then show ?thesis by simp
  next
    case (Some p)
    obtain x r where p: "p = (x, r)" by (cases p)
    from Some p have h: "parse_value f s = Some (x, r)" by simp
    from v [OF h] have h': "parse_value (Suc f) s = Some (x, r)" .
    show ?thesis
      apply (subst parse_elems.simps(2))
      apply (subst parse_elems.simps(2))
      apply (simp only: h h' option.case prod.case)
      apply (auto split: list.splits dest: e simp del: parse_value.simps parse_elems.simps)
      done
  qed
  have 3: "parse_members (Suc f) s = Some c \<longrightarrow> parse_members (Suc (Suc f)) s = Some c"
  proof (cases s)
    case Nil
    then show ?thesis by simp
  next
    case (Cons q r)
    show ?thesis
    proof (cases "q = 0x22")
      case False
      with Cons show ?thesis by simp
    next
      case True
      show ?thesis
      proof (cases "parse_chars r")
        case None
        with Cons True show ?thesis by simp
      next
        case (Some kr)
        obtain k r1 where kr: "kr = (k, r1)" by (cases kr)
        show ?thesis
        proof (cases "skip_ws r1")
          case Nil
          with Cons True Some kr show ?thesis by simp
        next
          case (Cons c2 r2)
          note sk = Cons
          show ?thesis
          proof (cases "c2 = 0x3A")
            case False
            with \<open>s = q # r\<close> True Some kr sk show ?thesis by simp
          next
            case c: True
            show ?thesis
            proof (cases "parse_value f (skip_ws r2)")
              case None
              with \<open>s = q # r\<close> True Some kr sk c show ?thesis by simp
            next
              case (Some p)
              obtain x r3 where p: "p = (x, r3)" by (cases p)
              from Some p have h: "parse_value f (skip_ws r2) = Some (x, r3)" by simp
              from v [OF h] have h': "parse_value (Suc f) (skip_ws r2) = Some (x, r3)" .
              show ?thesis
                apply (subst parse_members.simps(2))
                apply (subst parse_members.simps(2))
                apply (simp only: \<open>s = q # r\<close> True \<open>parse_chars r = Some kr\<close> kr sk c h h'
                    option.case prod.case list.case if_True if_False not_True_eq_False simp_thms)
                apply (auto split: list.splits dest: m simp del: parse_value.simps parse_members.simps)
                done
            qed
          qed
        qed
      qed
    qed
  qed
  from 1 2 3 show ?case by blast
qed

lemma parse_fuel_mono_le:
  assumes "f \<le> g"
  shows "(parse_value f s = Some a \<longrightarrow> parse_value g s = Some a)
       \<and> (parse_elems f s = Some b \<longrightarrow> parse_elems g s = Some b)
       \<and> (parse_members f s = Some c \<longrightarrow> parse_members g s = Some c)"
  using assms
proof (induction g)
  case 0
  then show ?case by simp
next
  case (Suc g)
  show ?case
  proof (cases "f = Suc g")
    case True
    then show ?thesis by simp
  next
    case False
    with Suc.prems have "f \<le> g" by simp
    with Suc.IH parse_fuel_mono [of g s a b c] show ?thesis by blast
  qed
qed

lemma parse_chars_length: "parse_chars s = Some (x, r) \<Longrightarrow> length r < length s"
proof (induction "length s" arbitrary: s x r rule: less_induct)
  case less
  have ih: "\<And>t y. length t < length s \<Longrightarrow> parse_chars t = Some (y, r) \<Longrightarrow> length r < length t"
    using less.hyps by blast
  show ?case
  proof (cases s)
    case Nil
    with less.prems show ?thesis by simp
  next
    case (Cons c cs)
    with less.prems show ?thesis
      apply (simp only: parse_chars.simps(2))
      apply (auto split: if_splits list.splits option.splits simp del: parse_chars.simps)
        apply (drule ih [rotated]; simp)+
      done
  qed
qed

lemma dropWhile_shorter: "takeWhile P s \<noteq> [] \<Longrightarrow> length (dropWhile P s) < length s"
  by (cases s) (auto simp add: less_Suc_eq_le length_dropWhile_le split: if_splits)

lemma parse_int_part_length: "parse_int_part s = Some (n, r) \<Longrightarrow> length r < length s"
  by (auto simp add: parse_int_part_def Let_def dropWhile_shorter split: if_splits)

lemma parse_frac_length: "parse_frac s = Some (q, r) \<Longrightarrow> length r \<le> length s"
  by (auto simp add: parse_frac_def Let_def le_Suc_eq length_dropWhile_le split: list.splits if_splits)

lemma parse_exp_digits_length: "parse_exp_digits neg s = Some (q, r) \<Longrightarrow> length r \<le> length s"
  by (auto simp add: parse_exp_digits_def Let_def length_dropWhile_le split: if_splits)

lemma parse_exp_length: "parse_exp s = Some (q, r) \<Longrightarrow> length r \<le> length s"
  by (auto simp add: parse_exp_def split: list.splits if_splits dest!: parse_exp_digits_length)

lemma parse_unsigned_length: "parse_unsigned s = Some (q, r) \<Longrightarrow> length r < length s"
  by (auto simp add: parse_unsigned_def split: option.splits
      dest!: parse_int_part_length parse_frac_length parse_exp_length)

lemma parse_number_length: "parse_number s = Some (q, r) \<Longrightarrow> length r < length s"
  by (auto simp add: parse_number_def split: list.splits if_splits dest!: parse_unsigned_length)

lemma parse_literal_length:
  assumes "parse_literal (a # w) v s = Some (x, r)"
  shows "length r < length s"
proof -
  from assms have t: "take (Suc (length w)) s = js (a # w)" and r: "r = drop (Suc (length w)) s"
    by (auto simp add: parse_literal_def split: if_splits)
  from t have "length (take (Suc (length w)) s) = Suc (length w)" by (simp add: js_def)
  then have "Suc (length w) \<le> length s" by simp
  with r show ?thesis by simp
qed

lemma parse_value_cases:
  assumes "parse_value (Suc f) s = Some (v, r)"
  shows "(\<exists>t x r1 ms. s = 0x7B # t \<and> skip_ws t = x # r1 \<and> x \<noteq> 0x7D
            \<and> parse_members f (x # r1) = Some (ms, r) \<and> v = JObj ms)
       \<or> (\<exists>t x r1 vs. s = 0x5B # t \<and> skip_ws t = x # r1 \<and> x \<noteq> 0x5D
            \<and> parse_elems f (x # r1) = Some (vs, r) \<and> v = JArr vs)
       \<or> (length r < length s \<and> (\<forall>g. parse_value (Suc g) s = Some (v, r)))"
proof (cases s)
  case Nil
  with assms show ?thesis by simp
next
  case (Cons c t)
  have sk: "length r1 < length s" if "skip_ws t = x # r1" for x r1
  proof -
    have "length (skip_ws t) \<le> length t" by (rule skip_ws_length)
    with that Cons show ?thesis by simp
  qed
  show ?thesis
  proof (cases "c = 0x7B")
    case True
    with assms Cons show ?thesis
      by (auto split: list.splits if_splits dest: sk simp del: parse_members.simps)
  next
    case nb: False
    show ?thesis
    proof (cases "c = 0x5B")
      case True
      with assms Cons nb show ?thesis
        by (auto split: list.splits if_splits dest: sk simp del: parse_elems.simps)
    next
      case False
      with assms Cons nb have "length r < length s"
        by (auto split: if_splits dest!: parse_chars_length parse_literal_length parse_number_length)
      moreover from assms Cons nb False have "\<forall>g. parse_value (Suc g) s = Some (v, r)"
        by (auto split: if_splits)
      ultimately show ?thesis by blast
    qed
  qed
qed

lemma parse_elems_cases:
  assumes "parse_elems (Suc f) s = Some (vs, r)"
  shows "\<exists>v0 r0 c r1. parse_value f s = Some (v0, r0) \<and> skip_ws r0 = c # r1
          \<and> ((c = 0x2C \<and> (\<exists>vs'. parse_elems f (skip_ws r1) = Some (vs', r) \<and> vs = v0 # vs'))
             \<or> (c \<noteq> 0x2C \<and> c = 0x5D \<and> r = r1 \<and> vs = [v0]))"
  using assms
  apply (subst (asm) parse_elems.simps(2))
  apply (auto split: option.splits list.splits if_splits simp del: parse_value.simps parse_elems.simps)
  done

lemma parse_members_cases:
  assumes "parse_members (Suc f) s = Some (ms, r)"
  shows "\<exists>t k r1 r2 v0 r3 d r4. s = 0x22 # t \<and> parse_chars t = Some (k, r1) \<and> skip_ws r1 = 0x3A # r2
          \<and> parse_value f (skip_ws r2) = Some (v0, r3) \<and> skip_ws r3 = d # r4
          \<and> ((d = 0x2C \<and> (\<exists>ms'. parse_members f (skip_ws r4) = Some (ms', r) \<and> ms = (k, v0) # ms'))
             \<or> (d \<noteq> 0x2C \<and> d = 0x7D \<and> r = r4 \<and> ms = [(k, v0)]))"
  using assms
  apply (subst (asm) parse_members.simps(2))
  apply (auto split: option.splits list.splits if_splits simp del: parse_value.simps parse_members.simps parse_chars.simps)
  done

lemma skip_ws_Cons_length: "skip_ws a = c # b \<Longrightarrow> length b < length a"
  using skip_ws_length [of a] by simp

lemma double_diff_Suc:
  "lr < (ls :: nat) \<Longrightarrow> \<exists>g. 2 * (ls - lr) = Suc g \<and> (\<forall>la lb. la \<le> ls \<longrightarrow> lr < lb \<longrightarrow> 2 * (la - lb) \<le> g)
      \<and> (\<forall>la. la < ls \<longrightarrow> 2 * (la - lr) \<le> g)"
proof -
  assume a: "lr < ls"
  define g where "g = 2 * (ls - lr) - 1"
  from a have "2 * (ls - lr) = Suc g" by (simp add: g_def)
  moreover have "\<forall>la lb. la \<le> ls \<longrightarrow> lr < lb \<longrightarrow> 2 * (la - lb) \<le> g"
    using a by (auto simp add: g_def)
  moreover have "\<forall>la. la < ls \<longrightarrow> 2 * (la - lr) \<le> g"
    using a by (auto simp add: g_def)
  ultimately show ?thesis by blast
qed

lemma parse_fuel_enough:
  "(parse_value f s = Some (v, r) \<longrightarrow>
      length r < length s \<and> parse_value (2 * (length s - length r)) s = Some (v, r))
   \<and> (parse_elems f s = Some (vs, r) \<longrightarrow>
      length r < length s \<and> parse_elems (2 * (length s - length r)) s = Some (vs, r))
   \<and> (parse_members f s = Some (ms, r) \<longrightarrow>
      length r < length s \<and> parse_members (2 * (length s - length r)) s = Some (ms, r))"
proof (induction f arbitrary: s v vs ms r)
  case 0
  show ?case by simp
next
  case (Suc f)
  have ihv: "\<And>s v r. parse_value f s = Some (v, r) \<Longrightarrow>
      length r < length s \<and> parse_value (2 * (length s - length r)) s = Some (v, r)"
    and ihe: "\<And>s vs r. parse_elems f s = Some (vs, r) \<Longrightarrow>
      length r < length s \<and> parse_elems (2 * (length s - length r)) s = Some (vs, r)"
    and ihm: "\<And>s ms r. parse_members f s = Some (ms, r) \<Longrightarrow>
      length r < length s \<and> parse_members (2 * (length s - length r)) s = Some (ms, r)"
    using Suc.IH by blast+
  have 1: "length r < length s \<and> parse_value (2 * (length s - length r)) s = Some (v, r)"
    if p: "parse_value (Suc f) s = Some (v, r)"
  proof -
    from parse_value_cases [OF p] consider
      (obj) t x r1 ms' where "s = 0x7B # t" "skip_ws t = x # r1" "x \<noteq> 0x7D"
        "parse_members f (x # r1) = Some (ms', r)" "v = JObj ms'"
      | (arr) t x r1 vs' where "s = 0x5B # t" "skip_ws t = x # r1" "x \<noteq> 0x5D"
        "parse_elems f (x # r1) = Some (vs', r)" "v = JArr vs'"
      | (leaf) "length r < length s" "\<forall>g. parse_value (Suc g) s = Some (v, r)"
      by blast
    then show ?thesis
    proof cases
      case obj
      from ihm [OF obj(4)] have l: "length r < length (x # r1)"
        and e: "parse_members (2 * (length (x # r1) - length r)) (x # r1) = Some (ms', r)" by simp_all
      have le: "length (x # r1) \<le> length t" using skip_ws_length [of t] obj(2) by simp
      with l obj(1) have lt: "length r < length s" by simp
      from double_diff_Suc [OF lt] obtain g where g: "2 * (length s - length r) = Suc g"
        and b: "\<forall>la. la < length s \<longrightarrow> 2 * (la - length r) \<le> g" by blast
      from le obj(1) b have "2 * (length (x # r1) - length r) \<le> g" by simp
      with e parse_fuel_mono_le have "parse_members g (x # r1) = Some (ms', r)" by blast
      with obj have "parse_value (Suc g) s = Some (v, r)"
        by (simp del: parse_members.simps)
      with lt g show ?thesis by simp
    next
      case arr
      from ihe [OF arr(4)] have l: "length r < length (x # r1)"
        and e: "parse_elems (2 * (length (x # r1) - length r)) (x # r1) = Some (vs', r)" by simp_all
      have le: "length (x # r1) \<le> length t" using skip_ws_length [of t] arr(2) by simp
      with l arr(1) have lt: "length r < length s" by simp
      from double_diff_Suc [OF lt] obtain g where g: "2 * (length s - length r) = Suc g"
        and b: "\<forall>la. la < length s \<longrightarrow> 2 * (la - length r) \<le> g" by blast
      from le arr(1) b have "2 * (length (x # r1) - length r) \<le> g" by simp
      with e parse_fuel_mono_le have "parse_elems g (x # r1) = Some (vs', r)" by blast
      with arr have "parse_value (Suc g) s = Some (v, r)"
        by (simp del: parse_elems.simps)
      with lt g show ?thesis by simp
    next
      case leaf
      from double_diff_Suc [OF leaf(1)] obtain g where "2 * (length s - length r) = Suc g" by blast
      with leaf show ?thesis by simp
    qed
  qed
  have 2: "length r < length s \<and> parse_elems (2 * (length s - length r)) s = Some (vs, r)"
    if p: "parse_elems (Suc f) s = Some (vs, r)"
  proof -
    from parse_elems_cases [OF p] obtain v0 r0 c r1 where
      pv: "parse_value f s = Some (v0, r0)" and sk: "skip_ws r0 = c # r1"
      and alt: "(c = 0x2C \<and> (\<exists>vs'. parse_elems f (skip_ws r1) = Some (vs', r) \<and> vs = v0 # vs'))
             \<or> (c \<noteq> 0x2C \<and> c = 0x5D \<and> r = r1 \<and> vs = [v0])"
      by blast
    from ihv [OF pv] have l0: "length r0 < length s"
      and e0: "parse_value (2 * (length s - length r0)) s = Some (v0, r0)" by simp_all
    from skip_ws_Cons_length [OF sk] have l1: "length r1 < length r0" .
    from alt show ?thesis
    proof
      assume a: "c = 0x2C \<and> (\<exists>vs'. parse_elems f (skip_ws r1) = Some (vs', r) \<and> vs = v0 # vs')"
      then obtain vs' where pe: "parse_elems f (skip_ws r1) = Some (vs', r)" and vs: "vs = v0 # vs'"
        by blast
      from ihe [OF pe] have l2: "length r < length (skip_ws r1)"
        and e2: "parse_elems (2 * (length (skip_ws r1) - length r)) (skip_ws r1) = Some (vs', r)"
        by simp_all
      have l3: "length (skip_ws r1) \<le> length r1" by (rule skip_ws_length)
      from l0 l1 l2 l3 have lt: "length r < length s" by simp
      from double_diff_Suc [OF lt] obtain g where g: "2 * (length s - length r) = Suc g"
        and b1: "\<forall>la lb. la \<le> length s \<longrightarrow> length r < lb \<longrightarrow> 2 * (la - lb) \<le> g"
        and b2: "\<forall>la. la < length s \<longrightarrow> 2 * (la - length r) \<le> g" by blast
      from b1 l1 l2 l3 have "2 * (length s - length r0) \<le> g" by simp
      with e0 parse_fuel_mono_le have h1: "parse_value g s = Some (v0, r0)" by blast
      from b2 l0 l1 l3 have "2 * (length (skip_ws r1) - length r) \<le> g" by simp
      with e2 parse_fuel_mono_le have h2: "parse_elems g (skip_ws r1) = Some (vs', r)" by blast
      from a h1 h2 sk vs have "parse_elems (Suc g) s = Some (vs, r)"
        by (simp del: parse_value.simps parse_elems.simps add: parse_elems.simps(2))
      with lt g show ?thesis by simp
    next
      assume a: "c \<noteq> 0x2C \<and> c = 0x5D \<and> r = r1 \<and> vs = [v0]"
      with l0 l1 have lt: "length r < length s" by simp
      from double_diff_Suc [OF lt] obtain g where g: "2 * (length s - length r) = Suc g"
        and b1: "\<forall>la lb. la \<le> length s \<longrightarrow> length r < lb \<longrightarrow> 2 * (la - lb) \<le> g" by blast
      from b1 l1 a have "2 * (length s - length r0) \<le> g" by simp
      with e0 parse_fuel_mono_le have h1: "parse_value g s = Some (v0, r0)" by blast
      from a h1 sk have "parse_elems (Suc g) s = Some (vs, r)"
        by (simp del: parse_value.simps parse_elems.simps add: parse_elems.simps(2))
      with lt g show ?thesis by simp
    qed
  qed
  have 3: "length r < length s \<and> parse_members (2 * (length s - length r)) s = Some (ms, r)"
    if p: "parse_members (Suc f) s = Some (ms, r)"
  proof -
    from parse_members_cases [OF p] obtain t k r1 r2 v0 r3 d r4 where
      s: "s = 0x22 # t" and pc: "parse_chars t = Some (k, r1)" and sk1: "skip_ws r1 = 0x3A # r2"
      and pv: "parse_value f (skip_ws r2) = Some (v0, r3)" and sk3: "skip_ws r3 = d # r4"
      and alt: "(d = 0x2C \<and> (\<exists>ms'. parse_members f (skip_ws r4) = Some (ms', r) \<and> ms = (k, v0) # ms'))
             \<or> (d \<noteq> 0x2C \<and> d = 0x7D \<and> r = r4 \<and> ms = [(k, v0)])"
      by blast
    from parse_chars_length [OF pc] have a1: "length r1 < length t" .
    from skip_ws_Cons_length [OF sk1] have a2: "length r2 < length r1" .
    have a3: "length (skip_ws r2) \<le> length r2" by (rule skip_ws_length)
    from ihv [OF pv] have a4: "length r3 < length (skip_ws r2)"
      and e0: "parse_value (2 * (length (skip_ws r2) - length r3)) (skip_ws r2) = Some (v0, r3)"
      by simp_all
    from skip_ws_Cons_length [OF sk3] have a5: "length r4 < length r3" .
    from alt show ?thesis
    proof
      assume a: "d = 0x2C \<and> (\<exists>ms'. parse_members f (skip_ws r4) = Some (ms', r) \<and> ms = (k, v0) # ms')"
      then obtain ms' where pm: "parse_members f (skip_ws r4) = Some (ms', r)" and ms: "ms = (k, v0) # ms'"
        by blast
      from ihm [OF pm] have a6: "length r < length (skip_ws r4)"
        and e2: "parse_members (2 * (length (skip_ws r4) - length r)) (skip_ws r4) = Some (ms', r)"
        by simp_all
      have a7: "length (skip_ws r4) \<le> length r4" by (rule skip_ws_length)
      from s a1 a2 a3 a4 a5 a6 a7 have lt: "length r < length s" by simp
      from double_diff_Suc [OF lt] obtain g where g: "2 * (length s - length r) = Suc g"
        and b1: "\<forall>la lb. la \<le> length s \<longrightarrow> length r < lb \<longrightarrow> 2 * (la - lb) \<le> g"
        and b2: "\<forall>la. la < length s \<longrightarrow> 2 * (la - length r) \<le> g" by blast
      from s a1 a2 a3 have "length (skip_ws r2) \<le> length s" by simp
      moreover from a5 a6 a7 have "length r < length r3" by simp
      ultimately have "2 * (length (skip_ws r2) - length r3) \<le> g" using b1 by blast
      with e0 parse_fuel_mono_le have h1: "parse_value g (skip_ws r2) = Some (v0, r3)" by blast
      from s a1 a2 a3 a4 a5 a7 have "length (skip_ws r4) < length s" by simp
      with b2 have "2 * (length (skip_ws r4) - length r) \<le> g" by blast
      with e2 parse_fuel_mono_le have h2: "parse_members g (skip_ws r4) = Some (ms', r)" by blast
      from a s pc sk1 h1 sk3 h2 ms have "parse_members (Suc g) s = Some (ms, r)"
        by (simp del: parse_value.simps parse_members.simps parse_chars.simps add: parse_members.simps(2))
      with lt g show ?thesis by simp
    next
      assume a: "d \<noteq> 0x2C \<and> d = 0x7D \<and> r = r4 \<and> ms = [(k, v0)]"
      with s a1 a2 a3 a4 a5 have lt: "length r < length s" by simp
      from double_diff_Suc [OF lt] obtain g where g: "2 * (length s - length r) = Suc g"
        and b1: "\<forall>la lb. la \<le> length s \<longrightarrow> length r < lb \<longrightarrow> 2 * (la - lb) \<le> g" by blast
      from s a1 a2 a3 have "length (skip_ws r2) \<le> length s" by simp
      moreover from a a5 have "length r < length r3" by simp
      ultimately have "2 * (length (skip_ws r2) - length r3) \<le> g" using b1 by blast
      with e0 parse_fuel_mono_le have h1: "parse_value g (skip_ws r2) = Some (v0, r3)" by blast
      from a s pc sk1 h1 sk3 have "parse_members (Suc g) s = Some (ms, r)"
        by (simp del: parse_value.simps parse_members.simps parse_chars.simps add: parse_members.simps(2))
      with lt g show ?thesis by simp
    qed
  qed
  from 1 2 3 show ?case by blast
qed

lemma JSON_parse_any_budget:
  "JSON_parse s = Some v \<longleftrightarrow> (\<exists>f r. parse_value f (skip_ws s) = Some (v, r) \<and> skip_ws r = [])"
proof
  assume "JSON_parse s = Some v"
  then obtain r where "parse_value (2 * length s + 2) (skip_ws s) = Some (v, r)" "skip_ws r = []"
    unfolding JSON_parse_def
    by (auto split: option.splits if_splits simp del: parse_value.simps)
  then show "\<exists>f r. parse_value f (skip_ws s) = Some (v, r) \<and> skip_ws r = []"
    by blast
next
  assume "\<exists>f r. parse_value f (skip_ws s) = Some (v, r) \<and> skip_ws r = []"
  then obtain f r where p: "parse_value f (skip_ws s) = Some (v, r)" and e: "skip_ws r = []"
    by blast
  from p parse_fuel_enough [of f "skip_ws s" v r]
  have q: "parse_value (2 * (length (skip_ws s) - length r)) (skip_ws s) = Some (v, r)"
    by blast
  have "2 * (length (skip_ws s) - length r) \<le> 2 * length s + 2"
    using skip_ws_length [of s] by simp
  with q parse_fuel_mono_le have "parse_value (2 * length s + 2) (skip_ws s) = Some (v, r)"
    by blast
  with e show "JSON_parse s = Some v"
    unfolding JSON_parse_def by (simp del: parse_value.simps)
qed

subsection \<open>The token manager\<close>

text \<open>
  What \<open>loadToken\<close> returns for a file written by \<open>saveToken\<close>, and how the callers read
  a loaded value that has the shape of a record.
\<close>

lemma falsy_to_json: "\<not> falsy (to_json t)"
  by (simp add: falsy_def to_json_def)

lemma read_prop_to_json:
  "read_prop (to_json t) ''access_token'' = Some (JStr (access_token t))"
  "read_prop (to_json t) ''created_at'' = Some (JNum (of_int (created_at t)))"
  "read_prop (to_json t) ''expires_in'' = map_option (\<lambda>e. JNum (of_int e)) (expires_in t)"
  by (cases "expires_in t"; simp add: read_prop_def to_json_def get_prop_def js_def)+

lemma as_int_Some: "as_int q = Some n \<Longrightarrow> q = of_int n"
  by (auto simp add: as_int_def split: if_splits)

lemma safe_numbers_to_json: "safe_numbers (to_json t) = valid_TokenInfo t"
  by (cases "expires_in t") (auto simp add: to_json_def valid_TokenInfo_def as_int_of_int)

lemma loadToken_stringified:
  "token_file w = Regular (JSON_stringify t) m \<Longrightarrow> loadToken w = Inr (to_json t)"
  by (simp add: loadToken_def JSON_parse_stringify)

lemma loadToken_stored: "loadToken (stored t) = Inr (to_json t)"
  by (simp add: stored_def loadToken_stringified)


lemma saveToken_result:
  "saveToken w t = Inr w' \<Longrightarrow> \<exists>m. w' = w\<lparr>token_file := Regular (JSON_stringify t) m\<rparr>"
  by (cases "token_file w") (auto simp add: saveToken_def)



lemma as_TokenInfo_obj:
  assumes "as_TokenInfo v = Some t"
  obtains kvs a c where "v = JObj kvs" "get_prop kvs ''access_token'' = Some (JStr a)"
    "get_prop kvs ''created_at'' = Some (JNum c)"
proof (cases v)
  case (JObj kvs)
  with assms have "\<exists>a c. get_prop kvs ''access_token'' = Some (JStr a) \<and> get_prop kvs ''created_at'' = Some (JNum c)"
    by (cases "get_prop kvs ''access_token''"; cases "get_prop kvs ''created_at''")
       (auto simp add: as_TokenInfo_def split: json.splits)
  with JObj that show ?thesis by blast
qed (use assms in \<open>simp_all add: as_TokenInfo_def\<close>)

lemma as_TokenInfo_reads:
  assumes "as_TokenInfo v = Some t"
  shows "\<not> falsy v"
    and "read_prop v ''access_token'' = Some (JStr (access_token t))"
    and "read_prop v ''created_at'' = Some (JNum (of_int (created_at t)))"
    and "read_prop v ''expires_in'' = map_option (\<lambda>e. JNum (of_int e)) (expires_in t)"
proof -
  from assms obtain kvs a c where v: "v = JObj kvs"
    and ga: "get_prop kvs ''access_token'' = Some (JStr a)"
    and gc: "get_prop kvs ''created_at'' = Some (JNum c)"
    by (rule as_TokenInfo_obj)
  from assms v ga gc obtain ci where ci: "as_int c = Some ci"
    and r: "(case get_prop kvs ''expires_in'' of
               None \<Rightarrow> Some \<lparr>access_token = a, created_at = ci, expires_in = None\<rparr>
             | Some (JNum e) \<Rightarrow>
                 (case as_int e of
                    None \<Rightarrow> None
                  | Some ei \<Rightarrow> Some \<lparr>access_token = a, created_at = ci, expires_in = Some ei\<rparr>)
             | Some _ \<Rightarrow> None) = Some t"
    by (cases "as_int c") (simp_all add: as_TokenInfo_def)
  from ci have c: "c = of_int ci" by (rule as_int_Some)
  have t: "access_token t = a \<and> created_at t = ci
      \<and> get_prop kvs ''expires_in'' = map_option (\<lambda>e. JNum (of_int e)) (expires_in t)"
  proof (cases "get_prop kvs ''expires_in''")
    case None
    with r show ?thesis by auto
  next
    case (Some x)
    show ?thesis
    proof (cases x)
      case (JNum e)
      with Some r obtain ei where "as_int e = Some ei"
        and "t = \<lparr>access_token = a, created_at = ci, expires_in = Some ei\<rparr>"
        by (cases "as_int e") auto
      with Some JNum as_int_Some [of e ei] show ?thesis by simp
    qed (use Some r in simp_all)
  qed
  show "\<not> falsy v" by (simp add: v falsy_def)
  show "read_prop v ''access_token'' = Some (JStr (access_token t))"
    using t by (simp add: v read_prop_def ga)
  show "read_prop v ''created_at'' = Some (JNum (of_int (created_at t)))"
    using t by (simp add: v read_prop_def gc c)
  show "read_prop v ''expires_in'' = map_option (\<lambda>e. JNum (of_int e)) (expires_in t)"
    using t by (simp add: v read_prop_def)
qed

lemma isTokenValid_record:
  assumes "loadToken w = Inr v" and "as_TokenInfo v = Some t"
  shows "isTokenValid w now =
          Inr (\<not> (\<exists>e. expires_in t = Some e \<and> e \<noteq> 0 \<and> created_at t \<noteq> 0 \<and> now > created_at t + e * 1000))"
proof (cases "expires_in t")
  case None
  with assms(1) as_TokenInfo_reads [OF assms(2)] show ?thesis
    by (simp add: isTokenValid_def truthy_val_def)
next
  case (Some e)
  have a: "rat_of_int (created_at t) + rat_of_int e * 1000 = rat_of_int (created_at t + e * 1000)"
    by simp
  have b: "(rat_of_int (created_at t) + rat_of_int e * 1000 < rat_of_int now) = (created_at t + e * 1000 < now)"
    by (simp only: a of_int_less_iff)
  from Some assms(1) as_TokenInfo_reads [OF assms(2)] show ?thesis
    by (simp add: isTokenValid_def truthy_val_def falsy_def Let_def b del: of_int_add of_int_mult)
qed





text \<open>
  Claim C8. For every valid record \<open>r\<close>, a \<open>saveToken\<close> of \<open>r\<close> followed at once by a
  \<open>loadToken\<close> returns a record equal to \<open>r\<close> (the value that \<open>r\<close> serializes to, which reads
  back as \<open>r\<close>); and the save does return unless every call on the path fails.
\<close>

theorem saveToken_loadToken_roundtrip:
  assumes "valid_TokenInfo r"
  shows "(\<forall>w'. saveToken w r = Inr w' \<longrightarrow>
            loadToken w' = Inr (to_json r) \<and> as_TokenInfo (to_json r) = Some r)
       \<and> ((\<forall>e. token_file w \<noteq> Unusable e) \<longrightarrow> (\<exists>w'. saveToken w r = Inr w'))"
proof (intro conjI allI impI)
  fix w' assume "saveToken w r = Inr w'"
  then obtain m where "w' = w\<lparr>token_file := Regular (JSON_stringify r) m\<rparr>"
    using saveToken_result by blast
  then show "loadToken w' = Inr (to_json r)" by (simp add: loadToken_stringified)
next
  fix w' show "as_TokenInfo (to_json r) = Some r" by (rule as_TokenInfo_to_json)
next
  assume "\<forall>e. token_file w \<noteq> Unusable e"
  then show "\<exists>w'. saveToken w r = Inr w'"
    by (cases "token_file w") (simp_all add: saveToken_def)
qed

theorem saveToken_loadToken_roundtrip_witness:
  "valid_TokenInfo token_S \<and> saveToken world0 token_S = Inr (stored token_S)
   \<and> loadToken (stored token_S) = Inr (to_json token_S)
   \<and> as_TokenInfo (to_json token_S) = Some token_S"
proof -
  have v: "valid_TokenInfo token_S"
    by (simp add: valid_TokenInfo_def token_S_def safe_integer_def)
  have s: "saveToken world0 token_S = Inr (stored token_S)"
    by (simp add: saveToken_def world0_def stored_def)
  show ?thesis
    using v s saveToken_loadToken_roundtrip [OF v, of world0] by simp
qed

text \<open>
  Claim C9. For a stored record whose \<^verbatim>\<open>expires_in\<close> is 0, or whose \<^verbatim>\<open>created_at\<close> is 0,
  \<open>isTokenValid\<close> returns true whatever the current time: the comparison is made only when
  both fields are truthy.
\<close>

theorem isTokenValid_zero_never_expires:
  assumes "loadToken w = Inr v" and "as_TokenInfo v = Some t"
    and "expires_in t = Some 0 \<or> created_at t = 0"
  shows "isTokenValid w now = Inr True"
  using assms(3) by (auto simp add: isTokenValid_record [OF assms(1) assms(2)])

theorem isTokenValid_zero_never_expires_witness:
  "loadToken (stored token_zero) = Inr (to_json token_zero)
   \<and> as_TokenInfo (to_json token_zero) = Some token_zero
   \<and> (expires_in token_zero = Some 0 \<or> created_at token_zero = 0)
   \<and> isTokenValid (stored token_zero) 1000000000000 = Inr True"
proof -
  have l: "loadToken (stored token_zero) = Inr (to_json token_zero)" by (rule loadToken_stored)
  have r: "as_TokenInfo (to_json token_zero) = Some token_zero" by (rule as_TokenInfo_to_json)
  have z: "expires_in token_zero = Some 0 \<or> created_at token_zero = 0" by (simp add: token_zero_def)
  show ?thesis
    using l r z isTokenValid_zero_never_expires [OF l r z, of 1000000000000] by simp
qed




subsection \<open>The API client\<close>

text \<open>
  What \<open>setToken\<close> does: a non-empty explicit token is taken with no read of the store;
  otherwise the store is read, and its record, its absence or its error decides. The
  environment token has no part in it.
\<close>

lemma setToken_explicit:
  "truthy token \<Longrightarrow> setToken token a w = (Inr (), a\<lparr>accessToken := token\<rparr>, [])"
  by (simp add: setToken_def)

lemma setToken_from_store:
  assumes "\<not> truthy token" and "loadToken w = Inr v" and "as_TokenInfo v = Some t"
  shows "setToken token a w = (Inr (), a\<lparr>accessToken := Some (access_token t)\<rparr>, [StoreRead])"
  using assms(1) as_TokenInfo_reads(1,2) [OF assms(3)]
  by (simp add: setToken_def assms(2))

lemma setToken_nothing_stored:
  "\<not> truthy token \<Longrightarrow> loadToken w = Inr JNull \<Longrightarrow>
     setToken token a w = (Inl TokenNotFound, a, [StoreRead])"
  by (simp add: setToken_def falsy_def)

lemma setToken_environment_independent:
  "setToken token a (w\<lparr>env_access_token := e\<rparr>) = setToken token a w"
  by (simp add: setToken_def loadToken_def)

text \<open>
  Claim C1 (token resolution: explicit token, then environment token, then the store). The
  source never reads the environment token. With no explicit token, the environment token
  set to V and the record S in the store, \<open>setToken\<close> reads the store and resolves S; with
  the environment token set and no token file it fails with the not-found error.
\<close>

theorem setToken_skips_environment_token:
  "setToken None api0 ((stored token_S)\<lparr>env_access_token := Some (js ''V'')\<rparr>)
     = (Inr (), \<lparr>accessToken = Some (js ''S'')\<rparr>, [StoreRead])
   \<and> setToken None api0 (world0\<lparr>env_access_token := Some (js ''V'')\<rparr>)
     = (Inl TokenNotFound, api0, [StoreRead])"
proof -
  have a: "loadToken ((stored token_S)\<lparr>env_access_token := Some (js ''V'')\<rparr>) = Inr (to_json token_S)"
    by (rule loadToken_stringified [where m = mode_0600]) (simp add: stored_def)
  have b: "loadToken (world0\<lparr>env_access_token := Some (js ''V'')\<rparr>) = Inr JNull"
    by (simp add: loadToken_def world0_def)
  have n: "\<not> truthy None" by (simp add: truthy_def)
  have "setToken None api0 ((stored token_S)\<lparr>env_access_token := Some (js ''V'')\<rparr>)
     = (Inr (), api0\<lparr>accessToken := Some (access_token token_S)\<rparr>, [StoreRead])"
    by (rule setToken_from_store [OF n a as_TokenInfo_to_json])
  moreover have "setToken None api0 (world0\<lparr>env_access_token := Some (js ''V'')\<rparr>)
     = (Inl TokenNotFound, api0, [StoreRead])"
    by (rule setToken_nothing_stored [OF n b])
  ultimately show ?thesis by (simp add: api0_def token_S_def)
qed




text \<open>
  Claim C10, as amended. Once the instance holds a non-empty token, \<open>checkAuth\<close> and
  \<open>getUserCheckins\<close> send that token, perform the one request and no read of the store, and
  leave the instance as it was; their results do not depend on the token file.
\<close>

theorem cached_token_is_reused:
  assumes "truthy (accessToken a)"
  shows "checkAuth a w net = (fst (checkAuth a w' net), a, [HttpGet (probe_request a)])
       \<and> getUserCheckins opts a w net
           = (fst (getUserCheckins opts a w' net), a, [HttpGet (checkins_request a opts)])
       \<and> authorization (probe_request a) = js ''Bearer '' @ value_of (accessToken a)
       \<and> authorization (checkins_request a opts) = js ''Bearer '' @ value_of (accessToken a)"
  using assms
  by (auto simp add: checkAuth_def getUserCheckins_def probe_def probe_request_def
      checkins_request_def bearer_def value_of_def truthy_def split: option.splits)

theorem cached_token_is_reused_witness:
  "truthy (accessToken api_S)
   \<and> checkAuth api_S (stored token_T2) net_down = (Inr False, api_S, [HttpGet (probe_request api_S)])
   \<and> authorization (probe_request api_S) = js ''Bearer '' @ js ''S''"
proof -
  have t: "truthy (accessToken api_S)" by (simp add: api_S_def truthy_def js_def)
  have e: "fst (checkAuth api_S world0 net_down) = Inr False"
    using t by (simp add: checkAuth_def probe_def net_down_def)
  show ?thesis
    using t e cached_token_is_reused [OF t, of "stored token_T2" net_down world0]
    by (simp add: api_S_def value_of_def)
qed

text \<open>
  Claim C10 as stated fails for the empty string, which is not \<^verbatim>\<open>null\<close> and yet falsy. A
  first \<open>checkAuth\<close> over a stored record with an empty \<^verbatim>\<open>access_token\<close> leaves the field
  set to the empty string; the next call reads the store again and sends the token of the
  file that has replaced the first one.
\<close>

theorem cached_token_counterexample:
  "accessToken (fst (snd (checkAuth api0 (stored token_empty) net_down))) = Some []
   \<and> snd (snd (checkAuth (fst (snd (checkAuth api0 (stored token_empty) net_down))) (stored token_T2) net_down))
       = [StoreRead, HttpGet (probe_request \<lparr>accessToken = Some (js ''T2'')\<rparr>)]"
proof -
  have a: "fst (snd (checkAuth api0 (stored token_empty) net_down)) = \<lparr>accessToken = Some []\<rparr>"
    by (simp add: checkAuth_def api0_def truthy_def loadToken_stored probe_def falsy_to_json
        read_prop_to_json)
       (simp add: token_empty_def)
  have b: "snd (snd (checkAuth \<lparr>accessToken = Some []\<rparr> (stored token_T2) net_down))
       = [StoreRead, HttpGet (probe_request \<lparr>accessToken = Some (js ''T2'')\<rparr>)]"
    by (simp add: checkAuth_def truthy_def loadToken_stored probe_def falsy_to_json
        read_prop_to_json)
       (simp add: token_T2_def)
  show ?thesis by (simp add: a b)
qed

subsection \<open>Writing the token file\<close>

lemma writeFile_states_Regular:
  "writeFile_states (Regular old m0) content m
     = Regular [] m0 # map (\<lambda>k. Regular (take k content) m0) [Suc 0..<Suc (length content)]"
  by (simp add: upt_conv_Cons del: upt_Suc)

lemma writeFile_states_last:
  "writeFile n content m = Inr n' \<Longrightarrow>
     writeFile_states n content m \<noteq> [] \<and> last (writeFile_states n content m) = n'"
  by (cases n) (auto simp add: last_map)

lemma writeFile_states_prefix:
  "s \<in> set (writeFile_states n content m) \<Longrightarrow>
     \<exists>k m'. k \<le> length content \<and> s = Regular (take k content) m'"
  by (cases n) (auto simp del: upt_Suc simp add: less_Suc_eq_le)

text \<open>
  Claim C3, as amended. \<open>saveToken\<close> writes the token file in place. When it has returned,
  the file holds the whole serialized record and \<open>loadToken\<close> returns that record (the value
  it serializes to, which reads back as the record). While it is writing, what a reader
  finds at the path is the file cut to length zero or a leading part of the new serialized
  record.
\<close>

theorem saveToken_writes_in_place:
  assumes "saveToken w t = Inr w'"
  shows "saveToken_states w t \<noteq> []
       \<and> last (saveToken_states w t) = w'
       \<and> loadToken w' = Inr (to_json t) \<and> as_TokenInfo (to_json t) = Some t
       \<and> (\<forall>s \<in> set (saveToken_states w t).
            \<exists>k m. k \<le> length (JSON_stringify t) \<and> token_file s = Regular (take k (JSON_stringify t)) m)"
proof -
  from assms obtain n where n: "writeFile (token_file w) (JSON_stringify t) mode_0600 = Inr n"
    and w': "w' = w\<lparr>token_file := n\<rparr>"
    by (auto simp add: saveToken_def split: sum.splits)
  from writeFile_states_last [OF n]
  have a: "saveToken_states w t \<noteq> []" and b: "last (saveToken_states w t) = w'"
    by (simp_all add: saveToken_states_def last_map w')
  from assms obtain m where "w' = w\<lparr>token_file := Regular (JSON_stringify t) m\<rparr>"
    using saveToken_result by blast
  then have c: "loadToken w' = Inr (to_json t)" by (simp add: loadToken_stringified)
  have c': "as_TokenInfo (to_json t) = Some t" by (rule as_TokenInfo_to_json)
  have d: "\<forall>s \<in> set (saveToken_states w t).
            \<exists>k m. k \<le> length (JSON_stringify t) \<and> token_file s = Regular (take k (JSON_stringify t)) m"
    using writeFile_states_prefix [of _ "token_file w" "JSON_stringify t" mode_0600]
    by (fastforce simp add: saveToken_states_def)
  from a b c c' d show ?thesis by blast
qed

theorem saveToken_writes_in_place_witness:
  "saveToken world0 token_S = Inr (stored token_S)
   \<and> last (saveToken_states world0 token_S) = stored token_S
   \<and> loadToken (stored token_S) = Inr (to_json token_S)
   \<and> as_TokenInfo (to_json token_S) = Some token_S"
proof -
  have s: "saveToken world0 token_S = Inr (stored token_S)"
    by (simp add: saveToken_def world0_def stored_def)
  show ?thesis
    using s saveToken_writes_in_place [OF s] by simp
qed

text \<open>
  Claim C3 as stated fails at the first state of a save over an existing record: the file
  is there, it is empty, and \<open>loadToken\<close> fails with the parser's error; the record is
  neither present nor absent.
\<close>

theorem saveToken_in_progress_counterexample:
  "loadToken (stored token_S) = Inr (to_json token_S)
   \<and> loadToken (hd (saveToken_states (stored token_S) token_T2)) = Inl SyntaxError"
proof -
  have h: "hd (saveToken_states (stored token_S) token_T2) = world0\<lparr>token_file := Regular [] mode_0600\<rparr>"
    by (simp add: saveToken_states_def stored_def writeFile_states_Regular del: writeFile_states.simps)
  have "loadToken (world0\<lparr>token_file := Regular [] mode_0600\<rparr>) = Inl SyntaxError"
    by (simp add: loadToken_def JSON_parse_empty)
  with h show ?thesis by (simp add: loadToken_stored)
qed

subsection \<open>The authorization flow\<close>

lemma authenticate_flow0: "authenticate None None world0 None = Inr flow0"
  by (simp add: authenticate_def world0_def flow0_def str_or_def js_def)














end
